theory Spec2Isabelle
  imports Main "HOL-Library.Sublist"
begin

section \<open>llmux: a scatter-gather scheduler over NotebookLM nodes\<close>

text \<open>
  A shallow embedding of \<^verbatim>\<open>src/llmux.py\<close>. Python objects are records, the methods of
  \<^verbatim>\<open>NotebookLMNode\<close> are functions that take \<open>self\<close> and the log of HTTP requests
  issued so far and return the outcome, \<open>self\<close> as the method leaves it and the
  extended log. An exception is the \<open>Inl\<close> side of a sum. The remote service, the
  file system and the order in which the event loop completes concurrent coroutines
  are parameters.
\<close>

subsection \<open>Python values\<close>

datatype error =
    Exception string   \<comment> \<open>\<^verbatim>\<open>raise Exception(msg)\<close>\<close>
  | KeyError string    \<comment> \<open>\<^verbatim>\<open>data[key]\<close> on a missing key\<close>
  | OSError string     \<comment> \<open>\<^verbatim>\<open>open(path, 'rb')\<close> on an unreadable path\<close>
  | ClientError string \<comment> \<open>anything raised inside aiohttp (transport, body decoding)\<close>

definition digit_char :: "nat \<Rightarrow> char" where
  "digit_char d = ''0123456789'' ! d"

fun str_nat :: "nat \<Rightarrow> string" where
  "str_nat n = (if n < 10 then [digit_char n] else str_nat (n div 10) @ [digit_char (n mod 10)])"

declare str_nat.simps [simp del]

definition str_int :: "int \<Rightarrow> string" where
  \<comment> \<open>\<^verbatim>\<open>str(n)\<close> and \<^verbatim>\<open>f"{n}"\<close> for a Python int\<close>
  "str_int n = (if n < 0 then CHR ''-'' # str_nat (nat (- n)) else str_nat (nat n))"

fun split_on :: "char \<Rightarrow> string \<Rightarrow> string list" where
  \<comment> \<open>\<^verbatim>\<open>s.split(c)\<close> for a one-character separator\<close>
  "split_on c [] = [[]]"
| "split_on c (x # xs) =
     (if x = c then [] # split_on c xs
      else (case split_on c xs of
              [] \<Rightarrow> [[x]]
            | seg # segs \<Rightarrow> (x # seg) # segs))"

definition basename :: "string \<Rightarrow> string" where
  \<comment> \<open>\<^verbatim>\<open>os.path.basename\<close> (posix): what follows the last slash\<close>
  "basename p = last (split_on CHR ''/'' p)"

fun join :: "string \<Rightarrow> string list \<Rightarrow> string" where
  \<comment> \<open>\<^verbatim>\<open>sep.join(parts)\<close>\<close>
  "join sep [] = []"
| "join sep [p] = p"
| "join sep (p # q # ps) = p @ sep @ join sep (q # ps)"

definition py_slice :: "'a list \<Rightarrow> int \<Rightarrow> int \<Rightarrow> 'a list" where
  \<comment> \<open>\<^verbatim>\<open>xs[start:stop]\<close>: a negative bound counts from the end, both are clamped to
      the list, and a stop before the start gives the empty list\<close>
  "py_slice xs start stop =
     (let n = int (length xs);
          lo = (if start < 0 then max (start + n) 0 else min start n);
          hi = (if stop < 0 then max (stop + n) 0 else min stop n)
      in take (nat (hi - lo)) (drop (nat lo) xs))"

definition enumerate_from0 :: "'a list \<Rightarrow> (nat \<times> 'a) list" where
  \<comment> \<open>\<^verbatim>\<open>enumerate(xs)\<close>\<close>
  "enumerate_from0 xs = zip [0..<length xs] xs"

subsection \<open>The remote service and the file system\<close>

datatype payload =
    JsonBody "(string \<times> string) list"
    \<comment> \<open>\<^verbatim>\<open>json=payload\<close>\<close>
  | FormBody string string string string
    \<comment> \<open>one multipart field: field name, content, filename, content type\<close>

record request =
  req_url :: string
  req_headers :: "(string \<times> string) list"
  req_body :: payload

record response =
  resp_status :: int
  resp_text :: string                        \<comment> \<open>\<^verbatim>\<open>await response.text()\<close>\<close>
  resp_json :: "(string \<rightharpoonup> string) option"  \<comment> \<open>\<^verbatim>\<open>await response.json()\<close>; None when it raises\<close>

text \<open>
  The service answers a request as a function of the requests it has received before
  and of the request itself, or the HTTP client raises. A decoded body is a JSON object
  with string fields. \<open>files\<close> maps a path to the bytes \<^verbatim>\<open>open(path, 'rb').read()\<close>
  returns, None where \<^verbatim>\<open>open\<close> raises.
\<close>

record env =
  http :: "request list \<Rightarrow> request \<Rightarrow> error + response"
  files :: "string \<rightharpoonup> string"

definition post :: "env \<Rightarrow> request \<Rightarrow> request list \<Rightarrow> (error + response) \<times> request list" where
  \<comment> \<open>\<^verbatim>\<open>session.post(...)\<close>: the request is answered and recorded\<close>
  "post e req log = (http e log req, log @ [req])"

subsection \<open>NotebookLMNode\<close>

record node =
  api_key :: string
  node_id :: string
  base_url :: string
  headers :: "(string \<times> string) list"
  notebook_id :: "string option"

definition new_node :: "string \<Rightarrow> string \<Rightarrow> node" where
  \<comment> \<open>\<^verbatim>\<open>NotebookLMNode.__init__\<close>\<close>
  "new_node key nid =
     \<lparr> api_key = key,
       node_id = nid,
       base_url = ''https://notebooklm.googleapis.com/v1'',
       headers = [(''Authorization'', ''Bearer '' @ key),
                  (''Content-Type'', ''application/json'')],
       notebook_id = None \<rparr>"

type_synonym 'a outcome = "error + 'a"

type_synonym 'a node_op = "node \<Rightarrow> request list \<Rightarrow> 'a outcome \<times> node \<times> request list"

definition create_notebook :: "env \<Rightarrow> string \<Rightarrow> string node_op" where
  "create_notebook e name self log =
     (let url = base_url self @ ''/notebooks'';
          payload = [(''display_name'', name @ '' - Node '' @ node_id self)];
          (r, log') = post e \<lparr> req_url = url, req_headers = headers self,
                                req_body = JsonBody payload \<rparr> log
      in case r of
           Inl err \<Rightarrow> (Inl err, self, log')
         | Inr resp \<Rightarrow>
             if resp_status resp = 200 then
               (case resp_json resp of
                  None \<Rightarrow> (Inl (ClientError ''json''), self, log')
                | Some data \<Rightarrow>
                    (case data ''name'' of
                       None \<Rightarrow> (Inl (KeyError ''name''), self, log')
                     | Some nm \<Rightarrow>
                         (let nid = last (split_on CHR ''/'' nm)
                          in (Inr nid, self\<lparr>notebook_id := Some nid\<rparr>, log'))))
             else (Inl (Exception (''Failed to create notebook: '' @ resp_text resp)),
                   self, log'))"

definition upload_document :: "env \<Rightarrow> string \<Rightarrow> string node_op" where
  "upload_document e document_path self log =
     (case notebook_id self of
        None \<Rightarrow> (Inl (Exception ''Notebook not created yet''), self, log)
      | Some nb \<Rightarrow>
          if nb = [] then (Inl (Exception ''Notebook not created yet''), self, log)
          else
            (let url = base_url self @ ''/notebooks/'' @ nb @ ''/documents''
             in case files e document_path of
                  None \<Rightarrow> (Inl (OSError document_path), self, log)
                | Some document_content \<Rightarrow>
                    (let document_name = basename document_path;
                         form_data = FormBody ''document'' document_content document_name
                                       ''application/octet-stream'';
                         (r, log') = post e \<lparr> req_url = url, req_headers = headers self,
                                               req_body = form_data \<rparr> log
                     in case r of
                          Inl err \<Rightarrow> (Inl err, self, log')
                        | Inr resp \<Rightarrow>
                            if resp_status resp = 200 then
                              (case resp_json resp of
                                 None \<Rightarrow> (Inl (ClientError ''json''), self, log')
                               | Some data \<Rightarrow>
                                   (case data ''document_id'' of
                                      None \<Rightarrow> (Inl (KeyError ''document_id''), self, log')
                                    | Some d \<Rightarrow> (Inr d, self, log')))
                            else (Inl (Exception (''Failed to upload document: ''
                                                   @ resp_text resp)), self, log'))))"

definition ask_question :: "env \<Rightarrow> string \<Rightarrow> string node_op" where
  "ask_question e question self log =
     (case notebook_id self of
        None \<Rightarrow> (Inl (Exception ''Notebook not created yet''), self, log)
      | Some nb \<Rightarrow>
          if nb = [] then (Inl (Exception ''Notebook not created yet''), self, log)
          else
            (let url = base_url self @ ''/notebooks/'' @ nb @ ''/query'';
                 payload = [(''query'', question)];
                 (r, log') = post e \<lparr> req_url = url, req_headers = headers self,
                                       req_body = JsonBody payload \<rparr> log
             in case r of
                  Inl err \<Rightarrow> (Inl err, self, log')
                | Inr resp \<Rightarrow>
                    if resp_status resp = 200 then
                      (case resp_json resp of
                         None \<Rightarrow> (Inl (ClientError ''json''), self, log')
                       | Some data \<Rightarrow>
                           (case data ''response'' of
                              None \<Rightarrow> (Inl (KeyError ''response''), self, log')
                            | Some a \<Rightarrow> (Inr a, self, log')))
                    else (Inl (Exception (''Failed to query notebook: '' @ resp_text resp)),
                          self, log')))"

subsection \<open>NotebookLMScheduler\<close>

record scheduler =
  sched_api_key :: string
  nodes :: "node list"
  scheduler_node :: node

text \<open>
  The state a coroutine of the scheduler runs in: the scheduler object with the node
  objects it holds, and the requests issued so far, oldest first. Console output is
  left out.
\<close>

record state =
  sched :: scheduler
  net :: "request list"

datatype ref = Worker nat | Aggregator
  \<comment> \<open>a reference to a node object: \<^verbatim>\<open>self.nodes[i]\<close> or \<^verbatim>\<open>self.scheduler_node\<close>\<close>

fun get_node :: "scheduler \<Rightarrow> ref \<Rightarrow> node" where
  "get_node sc (Worker i) = nodes sc ! i"
| "get_node sc Aggregator = scheduler_node sc"

fun set_node :: "scheduler \<Rightarrow> ref \<Rightarrow> node \<Rightarrow> scheduler" where
  "set_node sc (Worker i) n = sc\<lparr>nodes := (nodes sc)[i := n]\<rparr>"
| "set_node sc Aggregator n = sc\<lparr>scheduler_node := n\<rparr>"

type_synonym 'a coro = "state \<Rightarrow> 'a outcome \<times> state"

definition call :: "ref \<Rightarrow> 'a node_op \<Rightarrow> 'a coro" where
  \<comment> \<open>a method call on the object behind a reference; the scheduler only builds
      references \<open>Worker i\<close> with \<open>i\<close> inside the pool\<close>
  "call r m s =
     (let (res, self', log') = m (get_node (sched s) r) (net s)
      in (res, \<lparr> sched = set_node (sched s) r self', net = log' \<rparr>))"

definition init_scheduler :: "string \<Rightarrow> scheduler" where
  \<comment> \<open>\<^verbatim>\<open>NotebookLMScheduler.__init__\<close>\<close>
  "init_scheduler key =
     \<lparr> sched_api_key = key, nodes = [], scheduler_node = new_node key ''scheduler'' \<rparr>"

definition initialize_scheduler :: "env \<Rightarrow> string coro" where
  "initialize_scheduler e = call Aggregator (create_notebook e ''Scheduler Node'')"

definition add_node :: "node \<Rightarrow> state \<Rightarrow> state" where
  "add_node n s = s\<lparr>sched := (sched s)\<lparr>nodes := nodes (sched s) @ [n]\<rparr>\<rparr>"

fun create_nodes ::
  "env \<Rightarrow> string \<Rightarrow> (nat \<times> string) list \<Rightarrow> node list \<Rightarrow> request list
   \<Rightarrow> node list outcome \<times> request list" where
  "create_nodes e key [] acc log = (Inr acc, log)"
| "create_nodes e key ((i, name) # rest) acc log =
     (let new = new_node key (str_int (int i + 1));
          (r, new', log') = create_notebook e name new log
      in case r of
           Inl err \<Rightarrow> (Inl err, log')
         | Inr _ \<Rightarrow> create_nodes e key rest (acc @ [new']) log')"

definition initialize_nodes :: "env \<Rightarrow> string list \<Rightarrow> node list coro" where
  "initialize_nodes e node_names s =
     (case create_nodes e (sched_api_key (sched s)) (enumerate_from0 node_names) [] (net s) of
        (Inl err, log') \<Rightarrow> (Inl err, s\<lparr>net := log'\<rparr>)
      | (Inr ns, log') \<Rightarrow> (Inr ns, \<lparr> sched = (sched s)\<lparr>nodes := ns\<rparr>, net = log' \<rparr>))"

subsection \<open>asyncio.gather\<close>

text \<open>
  \<^verbatim>\<open>asyncio.gather(*tasks)\<close> runs the coroutines concurrently. Here a coroutine runs
  as one step, and \<open>order\<close> lists task indices in the order the event loop completes
  them: an index outside the task list or listed again is ignored, and a task that
  is not listed completes after the listed ones, by index. So every list stands for
  a completion order and every completion order is some list. \<open>run_tasks\<close> returns
  the outcomes in completion order, each with the index of its task. \<open>gather\<close>
  raises the exception raised first (the other tasks are not cancelled), and
  otherwise returns the results read in the order of the task list.
\<close>

definition completion_order :: "nat \<Rightarrow> nat list \<Rightarrow> nat list" where
  "completion_order n order =
     remdups (filter (\<lambda>i. i < n) order) @ filter (\<lambda>i. i \<notin> set order) [0..<n]"

fun run_tasks :: "nat list \<Rightarrow> 'a coro list \<Rightarrow> state \<Rightarrow> (nat \<times> 'a outcome) list \<times> state" where
  "run_tasks [] tasks s = ([], s)"
| "run_tasks (i # rest) tasks s =
     (let (r, s') = (tasks ! i) s;
          (finished, s'') = run_tasks rest tasks s'
      in ((i, r) # finished, s''))"

fun first_exception :: "(nat \<times> 'a outcome) list \<Rightarrow> error option" where
  "first_exception [] = None"
| "first_exception ((i, Inl err) # finished) = Some err"
| "first_exception ((i, Inr a) # finished) = first_exception finished"

fun results_of :: "nat list \<Rightarrow> (nat \<times> 'a outcome) list \<Rightarrow> 'a list" where
  "results_of [] finished = []"
| "results_of (i # rest) finished =
     (case map_of finished i of
        Some (Inr a) \<Rightarrow> a # results_of rest finished
      | _ \<Rightarrow> results_of rest finished)"

definition gather :: "nat list \<Rightarrow> 'a coro list \<Rightarrow> 'a list coro" where
  "gather order tasks s =
     (let (finished, s') = run_tasks (completion_order (length tasks) order) tasks s
      in case first_exception finished of
           Some err \<Rightarrow> (Inl err, s')
         | None \<Rightarrow> (Inr (results_of [0..<length tasks] finished), s'))"

subsection \<open>distribute_documents\<close>

fun upload_jobs :: "(nat \<times> node) list \<Rightarrow> string list \<Rightarrow> int \<Rightarrow> (ref \<times> string) list" where
  \<comment> \<open>the loop that fills \<^verbatim>\<open>tasks\<close>: a pair \<open>(Worker i, doc_path)\<close> stands for the
      coroutine \<^verbatim>\<open>node.upload_document(doc_path)\<close> of the i-th pool node, not yet started\<close>
  "upload_jobs [] document_paths documents_per_node = []"
| "upload_jobs ((i, n) # rest) document_paths documents_per_node =
     (let start_idx = int i * documents_per_node;
          end_idx = min (start_idx + documents_per_node) (int (length document_paths));
          node_docs = py_slice document_paths start_idx end_idx
      in map (\<lambda>doc_path. (Worker i, doc_path)) node_docs
         @ upload_jobs rest document_paths documents_per_node)"

definition distribute_documents ::
  "env \<Rightarrow> nat list \<Rightarrow> string list \<Rightarrow> int option \<Rightarrow> unit coro" where
  \<comment> \<open>\<open>documents_per_node = None\<close> is the call without the argument\<close>
  "distribute_documents e order document_paths documents_per_node s =
     (let per_node = (case documents_per_node of None \<Rightarrow> 25 | Some c \<Rightarrow> c);
          pool = nodes (sched s)
      in if int (length document_paths) > int (length pool) * per_node
         then (Inl (Exception (''Too many documents. Maximum is ''
                               @ str_int (int (length pool) * per_node))), s)
         else
           (let tasks = map (\<lambda>(r, doc_path). call r (upload_document e doc_path))
                          (upload_jobs (enumerate_from0 pool) document_paths per_node)
            in case gather order tasks s of
                 (Inl err, s') \<Rightarrow> (Inl err, s')
               | (Inr ids, s') \<Rightarrow> (Inr (), s')))"

subsection \<open>process_query\<close>

definition indent :: string where
  "indent = replicate 8 CHR '' ''"

definition rule40 :: string where
  \<comment> \<open>\<^verbatim>\<open>'-' * 40\<close>\<close>
  "rule40 = replicate 40 CHR ''-''"

definition node_block :: "nat \<times> string \<Rightarrow> string" where
  \<comment> \<open>\<^verbatim>\<open>f"Node {i+1} Response:\n{response}"\<close>\<close>
  "node_block = (\<lambda>(i, response).
     ''Node '' @ str_int (int i + 1) @ '' Response:'' @ [CHR 0x0A] @ response)"

definition summary_request :: "string \<Rightarrow> string list \<Rightarrow> string" where
  "summary_request question responses =
     [CHR 0x0A] @ indent @ ''I received the following responses to the question: ''
       @ [CHR 0x22] @ question @ [CHR 0x22] @ [CHR 0x0A]
     @ indent @ [CHR 0x0A]
     @ indent @ rule40 @ [CHR 0x0A]
     @ indent @ [CHR 0x0A]
     @ indent
     @ join [CHR 0x0A, CHR 0x0A] (map node_block (enumerate_from0 responses))
     @ [CHR 0x0A]
     @ indent @ [CHR 0x0A]
     @ indent @ rule40 @ [CHR 0x0A]
     @ indent @ [CHR 0x0A]
     @ indent @ ''Please synthesize these responses into a comprehensive answer, highlighting agreements and differences.'' @ [CHR 0x0A]
     @ indent @ ''Provide a unified response that captures the key insights from all nodes.'' @ [CHR 0x0A]
     @ indent"

definition query_tasks :: "env \<Rightarrow> string \<Rightarrow> state \<Rightarrow> string coro list" where
  \<comment> \<open>\<^verbatim>\<open>[node.ask_question(question) for node in self.nodes]\<close>\<close>
  "query_tasks e question s =
     map (\<lambda>i. call (Worker i) (ask_question e question)) [0..<length (nodes (sched s))]"

definition collect_responses :: "env \<Rightarrow> nat list \<Rightarrow> string \<Rightarrow> string list coro" where
  \<comment> \<open>\<^verbatim>\<open>responses = await asyncio.gather(*tasks)\<close>\<close>
  "collect_responses e order question s = gather order (query_tasks e question s) s"

definition process_query :: "env \<Rightarrow> nat list \<Rightarrow> string \<Rightarrow> string coro" where
  "process_query e order question s =
     (case collect_responses e order question s of
        (Inl err, s') \<Rightarrow> (Inl err, s')
      | (Inr responses, s') \<Rightarrow>
          call Aggregator (ask_question e (summary_request question responses)) s')"

subsection \<open>What the claims observe\<close>

definition shard :: "nat \<Rightarrow> (ref \<times> string) list \<Rightarrow> string list" where
  \<comment> \<open>the documents whose upload coroutine belongs to pool node \<open>i\<close>, in task order\<close>
  "shard i jobs = map snd (filter (\<lambda>(r, doc_path). r = Worker i) jobs)"

definition planned_jobs :: "state \<Rightarrow> string list \<Rightarrow> int \<Rightarrow> (ref \<times> string) list" where
  \<comment> \<open>the task list \<^verbatim>\<open>distribute_documents\<close> builds for the current pool\<close>
  "planned_jobs s document_paths per_node =
     upload_jobs (enumerate_from0 (nodes (sched s))) document_paths per_node"

definition upload_tasks :: "env \<Rightarrow> (ref \<times> string) list \<Rightarrow> string coro list" where
  \<comment> \<open>the coroutines of a task list\<close>
  "upload_tasks e jobs = map (\<lambda>(r, doc_path). call r (upload_document e doc_path)) jobs"

definition node_docs :: "string list \<Rightarrow> int \<Rightarrow> nat \<Rightarrow> string list" where
  \<comment> \<open>\<^verbatim>\<open>node_docs\<close> of loop round \<open>i\<close>\<close>
  "node_docs D C i = py_slice D (int i * C) (min (int i * C + C) (int (length D)))"

definition round_record ::
  "env \<Rightarrow> nat list \<Rightarrow> string \<Rightarrow> state \<Rightarrow> (nat \<times> string outcome) list \<times> state" where
  \<comment> \<open>the per-node round of \<^verbatim>\<open>process_query\<close>: what each node's \<^verbatim>\<open>ask_question\<close> returned,
      in completion order and with the node's pool index, and the state after the round\<close>
  "round_record e order question s =
     run_tasks (completion_order (length (nodes (sched s))) order) (query_tasks e question s) s"

definition round_inv :: "string \<Rightarrow> state \<Rightarrow> state \<Rightarrow> bool" where
  \<comment> \<open>what holds of a state \<open>t\<close> reached during the per-node round started in \<open>s\<close>\<close>
  "round_inv q s t \<longleftrightarrow>
     sched t = sched s
     \<and> (\<exists>new. net t = net s @ new \<and> (\<forall>req \<in> set new. req_body req = JsonBody [(''query'', q)]))"

definition prompt_intro :: string where
  \<comment> \<open>the fixed text of the prompt: before the question, between the question and the
      blocks, after the blocks\<close>
  "prompt_intro = [CHR 0x0A] @ indent @ ''I received the following responses to the question: ''"

definition prompt_sep :: string where
  "prompt_sep = [CHR 0x0A] @ indent @ [CHR 0x0A] @ indent @ rule40 @ [CHR 0x0A]
                @ indent @ [CHR 0x0A] @ indent"

definition prompt_outro :: string where
  "prompt_outro = [CHR 0x0A] @ indent @ [CHR 0x0A] @ indent @ rule40 @ [CHR 0x0A]
     @ indent @ [CHR 0x0A]
     @ indent @ ''Please synthesize these responses into a comprehensive answer, highlighting agreements and differences.'' @ [CHR 0x0A]
     @ indent @ ''Provide a unified response that captures the key insights from all nodes.'' @ [CHR 0x0A]
     @ indent"

definition labelled_blocks :: "string list \<Rightarrow> string list" where
  \<comment> \<open>the block of each answer, labelled with its position counted from 1\<close>
  "labelled_blocks rs =
     map (\<lambda>i. ''Node '' @ str_int (int i + 1) @ '' Response:'' @ [CHR 0x0A] @ rs ! i) [0..<length rs]"

fun occurs_then :: "'a list \<Rightarrow> 'a list \<Rightarrow> 'a list \<Rightarrow> bool" where
  \<comment> \<open>\<open>a\<close> occurs in the text and \<open>b\<close> occurs after that occurrence\<close>
  "occurs_then a b [] \<longleftrightarrow> a = [] \<and> b = []"
| "occurs_then a b (x # xs) \<longleftrightarrow>
     (prefix a (x # xs) \<and> sublist b (drop (length a) (x # xs))) \<or> occurs_then a b xs"

subsection \<open>Schedulers and services for the worked examples\<close>

definition bound_node :: "string \<Rightarrow> string \<Rightarrow> node" where
  \<comment> \<open>a node whose notebook \<open>nb\<close> was created\<close>
  "bound_node nid nb = (new_node ''key'' nid)\<lparr>notebook_id := Some nb\<rparr>"

definition pool2 :: state where
  \<comment> \<open>a scheduler with two bound nodes and a bound aggregator, no request issued yet\<close>
  "pool2 = \<lparr> sched = \<lparr> sched_api_key = ''key'',
                       nodes = [bound_node ''1'' ''nb1'', bound_node ''2'' ''nb2''],
                       scheduler_node = bound_node ''scheduler'' ''agg'' \<rparr>,
             net = [] \<rparr>"

definition pool0 :: state where
  \<comment> \<open>a scheduler with an empty pool and a bound aggregator\<close>
  "pool0 = \<lparr> sched = \<lparr> sched_api_key = ''key'', nodes = [],
                       scheduler_node = bound_node ''scheduler'' ''agg'' \<rparr>,
             net = [] \<rparr>"

definition pool2_unbound :: state where
  \<comment> \<open>the pool of two bound nodes with an aggregator whose notebook was never created\<close>
  "pool2_unbound = pool2\<lparr>sched := (sched pool2)\<lparr>scheduler_node := new_node ''key'' ''scheduler''\<rparr>\<rparr>"

definition pool1_fresh :: state where
  \<comment> \<open>a bound aggregator and one pool node whose notebook was never created\<close>
  "pool1_fresh = add_node (new_node ''key'' ''1'') pool0"

definition ok_response :: response where
  "ok_response = \<lparr> resp_status = 200, resp_text = [],
                    resp_json = Some [''response'' \<mapsto> ''X'', ''document_id'' \<mapsto> ''doc-1'',
                                      ''name'' \<mapsto> ''notebooks/nb-9''] \<rparr>"

definition ok_env :: env where
  \<comment> \<open>a service that accepts every request; every file is readable\<close>
  "ok_env = \<lparr> http = (\<lambda>log req. Inr ok_response), files = (\<lambda>p. Some ''bytes'') \<rparr>"

definition echo_env :: env where
  \<comment> \<open>a service that answers every query with the URL it was sent to\<close>
  "echo_env = \<lparr> http = (\<lambda>log req. Inr \<lparr> resp_status = 200, resp_text = [],
                              resp_json = Some [''response'' \<mapsto> ''re: '' @ req_url req] \<rparr>),
                files = (\<lambda>p. Some ''bytes'') \<rparr>"

definition reject_env :: "string \<Rightarrow> env" where
  \<comment> \<open>a service that rejects the queries to notebook \<open>nb\<close> and accepts every other request\<close>
  "reject_env nb =
     \<lparr> http = (\<lambda>log req.
                if req_url req = ''https://notebooklm.googleapis.com/v1/notebooks/'' @ nb @ ''/query''
                then Inr \<lparr> resp_status = 500, resp_text = ''boom'', resp_json = None \<rparr>
                else Inr ok_response),
       files = (\<lambda>p. Some ''bytes'') \<rparr>"

definition counting_env :: env where
  \<comment> \<open>a service that numbers the notebooks it creates by the requests it has seen\<close>
  "counting_env =
     \<lparr> http = (\<lambda>log req. Inr \<lparr> resp_status = 200, resp_text = [],
                  resp_json = Some [''name'' \<mapsto> ''notebooks/nb'' @ str_int (int (length log))] \<rparr>),
       files = (\<lambda>p. Some ''bytes'') \<rparr>"

definition first_create :: "string outcome \<times> node \<times> request list" where
  \<comment> \<open>\<^verbatim>\<open>create_notebook\<close> on a new node\<close>
  "first_create = create_notebook counting_env ''A'' (new_node ''key'' ''1'') []"

definition second_create :: "string outcome \<times> node \<times> request list" where
  \<comment> \<open>\<^verbatim>\<open>create_notebook\<close> again on the same node\<close>
  "second_create = create_notebook counting_env ''A'' (fst (snd first_create)) (snd (snd first_create))"

section \<open>Properties\<close>

subsection \<open>Sharding\<close>

lemma upload_jobs_zip:
  "upload_jobs (zip [k..<k + length ns] ns) D C
   = concat (map (\<lambda>i. map (\<lambda>d. (Worker i, d)) (node_docs D C i)) [k..<k + length ns])"
proof (induction ns arbitrary: k)
  case Nil
  then show ?case by simp
next
  case (Cons n ns)
  have "[k..<k + length (n # ns)] = k # [Suc k..<Suc k + length ns]"
    by (subst upt_rec) simp
  then show ?case using Cons.IH [of "Suc k"]
    by (simp add: node_docs_def Let_def)
qed

lemma upload_jobs_enumerate:
  "upload_jobs (enumerate_from0 pool) D C
   = concat (map (\<lambda>i. map (\<lambda>d. (Worker i, d)) (node_docs D C i)) [0..<length pool])"
  using upload_jobs_zip [of 0 pool D C] by (simp add: enumerate_from0_def)

lemma shard_concat:
  "shard i (concat (map (\<lambda>j. map (\<lambda>d. (Worker j, d)) (f j)) js))
   = concat (map (\<lambda>j. if j = i then f j else []) js)"
  by (induction js) (auto simp: shard_def filter_map comp_def)

lemma concat_none_upt:
  "m \<le> n \<Longrightarrow> concat (map (\<lambda>j. if j = n then f j else []) [0..<m]) = []"
  by (induction m) auto

lemma concat_single_upt:
  "i < n \<Longrightarrow> concat (map (\<lambda>j. if j = i then f j else []) [0..<n]) = f i"
proof (induction n)
  case 0
  then show ?case by simp
next
  case (Suc n)
  show ?case
  proof (cases "i = n")
    case True
    then show ?thesis using concat_none_upt [of n n f] by simp
  next
    case False
    with Suc have "i < n" by simp
    with Suc.IH False show ?thesis by simp
  qed
qed

lemma py_slice_nat:
  "py_slice xs (int a) (int b) = take (min b (length xs) - min a (length xs)) (drop (min a (length xs)) xs)"
proof -
  have "nat (min (int b) (int (length xs)) - min (int a) (int (length xs)))
        = min b (length xs) - min a (length xs)"
    by (simp only: of_nat_min [symmetric] of_nat_diff_if [symmetric] nat_int) 
  moreover have "nat (min (int a) (int (length xs))) = min a (length xs)"
    by (simp only: of_nat_min [symmetric] nat_int)
  ultimately show ?thesis
    by (simp add: py_slice_def Let_def)
qed

lemma node_docs_take_drop:
  assumes "0 \<le> C"
  shows "node_docs D C i = take (nat C) (drop (i * nat C) D)"
proof -
  obtain c where C: "C = int c" using assms nonneg_int_cases by blast
  have "min (int i * C + C) (int (length D)) = int (min (i * c + c) (length D))"
    by (simp add: C of_nat_min)
  moreover have "int i * C = int (i * c)" by (simp add: C)
  ultimately have "node_docs D C i
      = take (min (min (i * c + c) (length D)) (length D) - min (i * c) (length D))
             (drop (min (i * c) (length D)) D)"
    unfolding node_docs_def by (simp only: py_slice_nat)
  also have "\<dots> = take c (drop (i * c) D)"
  proof (cases "i * c \<le> length D")
    case True
    then show ?thesis by (auto simp: min_def)
  next
    case False
    then show ?thesis by (simp add: min_def)
  qed
  finally show ?thesis by (simp add: C)
qed

lemma concat_take_drop:
  "concat (map (\<lambda>i. take c (drop (i * c) D)) [0..<n]) = take (n * c) D"
proof (induction n)
  case 0
  then show ?case by simp
next
  case (Suc n)
  have "take (n * c) D @ take c (drop (n * c) D) = take (n * c + c) D"
    by (simp add: take_add)
  with Suc show ?case by (simp add: add.commute)
qed


lemma planned_jobs_concat:
  "planned_jobs s D C
   = concat (map (\<lambda>i. map (\<lambda>d. (Worker i, d)) (node_docs D C i)) [0..<length (nodes (sched s))])"
  by (simp add: planned_jobs_def upload_jobs_enumerate)

lemma shard_planned:
  "i < length (nodes (sched s)) \<Longrightarrow> shard i (planned_jobs s D C) = node_docs D C i"
  by (simp only: planned_jobs_concat shard_concat concat_single_upt)

lemma map_snd_planned:
  "map snd (planned_jobs s D C) = concat (map (node_docs D C) [0..<length (nodes (sched s))])"
  by (simp add: planned_jobs_concat map_concat comp_def)

lemma capacity_nonneg:
  assumes "int (length D) \<le> int n * C" and "0 < n"
  shows "0 \<le> C"
proof (rule ccontr)
  assume "\<not> 0 \<le> C"
  hence "C < 0" by simp
  hence "int n * C < 0" using assms(2) by (simp add: mult_pos_neg)
  with assms(1) show False by simp
qed

lemma concat_node_docs:
  assumes "int (length D) \<le> int n * C"
  shows "concat (map (node_docs D C) [0..<n]) = D"
proof (cases "n = 0")
  case True
  with assms show ?thesis by simp
next
  case False
  hence "0 < n" by simp
  with assms have C: "0 \<le> C" by (rule capacity_nonneg)
  have "int (length D) \<le> int (n * nat C)" using assms C by simp
  hence len: "length D \<le> n * nat C" by (simp only: of_nat_le_iff)
  have "map (node_docs D C) [0..<n] = map (\<lambda>i. take (nat C) (drop (i * nat C) D)) [0..<n]"
    using C by (simp add: node_docs_take_drop)
  hence "concat (map (node_docs D C) [0..<n]) = take (n * nat C) D"
    by (simp only: concat_take_drop)
  with len show ?thesis by simp
qed

lemma distribute_within_capacity:
  assumes "int (length D) \<le> int (length (nodes (sched s))) * C"
  shows "distribute_documents e order D (Some C) s =
           (case gather order (upload_tasks e (planned_jobs s D C)) s of
              (Inl err, s') \<Rightarrow> (Inl err, s')
            | (Inr ids, s') \<Rightarrow> (Inr (), s'))"
  using assms by (simp add: distribute_documents_def planned_jobs_def upload_tasks_def Let_def)

text \<open>
  Claim C1. When the documents fit, \<open>len(D) \<le> N * C\<close> for the pool size \<open>N\<close>,
  \<^verbatim>\<open>distribute_documents\<close> passes its capacity check and gathers the upload tasks of
  \<open>planned_jobs\<close>. The documents of node \<open>i\<close> are the Python slice
  \<open>D[i*C : min((i+1)*C, len(D))]\<close>, that is \<open>C\<close> documents from position \<open>i * C\<close> on,
  or fewer at the end of \<open>D\<close>; a node past the end of \<open>D\<close> gets no task at all. The
  documents of all tasks, in task order, are \<open>D\<close> itself, and so is the concatenation
  of the shards in node order: nothing is lost, repeated or reordered.
\<close>

theorem sharding_correct:
  assumes "int (length D) \<le> int (length (nodes (sched s))) * C"
  shows "distribute_documents e order D (Some C) s =
           (case gather order (upload_tasks e (planned_jobs s D C)) s of
              (Inl err, s') \<Rightarrow> (Inl err, s')
            | (Inr ids, s') \<Rightarrow> (Inr (), s'))
         \<and> (\<forall>i < length (nodes (sched s)).
               shard i (planned_jobs s D C)
                 = py_slice D (int i * C) (min ((int i + 1) * C) (int (length D)))
             \<and> shard i (planned_jobs s D C) = take (nat C) (drop (i * nat C) D)
             \<and> (int (length D) \<le> int i * C \<longrightarrow> shard i (planned_jobs s D C) = []))
         \<and> map snd (planned_jobs s D C) = D
         \<and> concat (map (\<lambda>i. shard i (planned_jobs s D C)) [0..<length (nodes (sched s))]) = D"
proof (intro conjI allI impI)
  show "distribute_documents e order D (Some C) s =
           (case gather order (upload_tasks e (planned_jobs s D C)) s of
              (Inl err, s') \<Rightarrow> (Inl err, s')
            | (Inr ids, s') \<Rightarrow> (Inr (), s'))"
    using assms by (rule distribute_within_capacity)
next
  fix i assume i: "i < length (nodes (sched s))"
  have "(int i + 1) * C = int i * C + C" by (simp add: algebra_simps)
  then show "shard i (planned_jobs s D C)
        = py_slice D (int i * C) (min ((int i + 1) * C) (int (length D)))"
    using i by (simp add: shard_planned node_docs_def)
next
  fix i assume i: "i < length (nodes (sched s))"
  hence "0 < length (nodes (sched s))" by arith
  with assms have "0 \<le> C" by (rule capacity_nonneg)
  then show "shard i (planned_jobs s D C) = take (nat C) (drop (i * nat C) D)"
    using i by (simp add: shard_planned node_docs_take_drop)
next
  fix i assume i: "i < length (nodes (sched s))" and far: "int (length D) \<le> int i * C"
  from i have "0 < length (nodes (sched s))" by arith
  with assms have C: "0 \<le> C" by (rule capacity_nonneg)
  have "int (length D) \<le> int (i * nat C)" using far C by simp
  hence "length D \<le> i * nat C" by (simp only: of_nat_le_iff)
  then show "shard i (planned_jobs s D C) = []"
    using i C by (simp add: shard_planned node_docs_take_drop)
next
  show "map snd (planned_jobs s D C) = D"
    using assms by (simp add: map_snd_planned concat_node_docs)
next
  have "map (\<lambda>i. shard i (planned_jobs s D C)) [0..<length (nodes (sched s))]
        = map (node_docs D C) [0..<length (nodes (sched s))]"
    by (rule map_cong) (simp_all add: shard_planned)
  hence "concat (map (\<lambda>i. shard i (planned_jobs s D C)) [0..<length (nodes (sched s))])
        = concat (map (node_docs D C) [0..<length (nodes (sched s))])"
    by (rule arg_cong)
  also have "\<dots> = D" using assms by (rule concat_node_docs)
  finally show "concat (map (\<lambda>i. shard i (planned_jobs s D C)) [0..<length (nodes (sched s))]) = D" .
qed

text \<open>
  Two nodes and three documents: with capacity 2 the first node gets two and the second
  one; with capacity 3 the second node is past the end and gets none.
\<close>

theorem sharding_correct_witness:
  "int (length [''a'', ''b'', ''c'']) \<le> int (length (nodes (sched pool2))) * 2
   \<and> shard 0 (planned_jobs pool2 [''a'', ''b'', ''c''] 2) = [''a'', ''b'']
   \<and> shard 1 (planned_jobs pool2 [''a'', ''b'', ''c''] 2) = [''c'']
   \<and> map snd (planned_jobs pool2 [''a'', ''b'', ''c''] 2) = [''a'', ''b'', ''c'']
   \<and> int (length [''a'', ''b'', ''c'']) \<le> int (length (nodes (sched pool2))) * 3
   \<and> int (length [''a'', ''b'', ''c'']) \<le> int 1 * 3
   \<and> shard 1 (planned_jobs pool2 [''a'', ''b'', ''c''] 3) = []"
proof -
  have h: "int (length [''a'', ''b'', ''c'']) \<le> int (length (nodes (sched pool2))) * 2"
    by (simp add: pool2_def)
  have h3: "int (length [''a'', ''b'', ''c'']) \<le> int (length (nodes (sched pool2))) * 3"
    by (simp add: pool2_def)
  have far: "int (length [''a'', ''b'', ''c'']) \<le> int 1 * 3" by simp
  have n: "length (nodes (sched pool2)) = 2" by (simp add: pool2_def)
  from sharding_correct [OF h] n
  have "shard 0 (planned_jobs pool2 [''a'', ''b'', ''c''] 2) = [''a'', ''b'']"
    and "shard 1 (planned_jobs pool2 [''a'', ''b'', ''c''] 2) = [''c'']"
    and "map snd (planned_jobs pool2 [''a'', ''b'', ''c''] 2) = [''a'', ''b'', ''c'']"
    by (simp_all add: py_slice_def)
  moreover have "(1::nat) < length (nodes (sched pool2))" by (simp add: n)
  from sharding_correct [OF h3, THEN conjunct2, THEN conjunct1, rule_format, OF this]
  have "int (length [''a'', ''b'', ''c'']) \<le> int 1 * 3 \<longrightarrow>
          shard 1 (planned_jobs pool2 [''a'', ''b'', ''c''] 3) = []"
    by (rule conjunct2 [OF conjunct2])
  from this far have "shard 1 (planned_jobs pool2 [''a'', ''b'', ''c''] 3) = []"
    by (rule mp)
  ultimately show ?thesis using h h3 far by blast
qed

subsection \<open>The capacity check\<close>

lemma distribute_over_capacity:
  assumes "int (length (nodes (sched s))) * C < int (length D)"
  shows "distribute_documents e order D (Some C) s =
           (Inl (Exception (''Too many documents. Maximum is ''
                            @ str_int (int (length (nodes (sched s))) * C))), s)"
  using assms by (simp add: distribute_documents_def Let_def)

lemma distribute_default:
  "distribute_documents e order D None s = distribute_documents e order D (Some 25) s"
  by (simp add: distribute_documents_def)

text \<open>
  Claim C2. When \<open>len(D) > N * C\<close> for the pool size \<open>N\<close>, \<^verbatim>\<open>distribute_documents\<close>
  raises the capacity exception and returns the state it was given: the request log is
  the same, so no upload request was issued, whatever the service, the files and the
  completion order are.
\<close>

theorem capacity_rejected:
  assumes "int (length D) > int (length (nodes (sched s))) * C"
  shows "distribute_documents e order D (Some C) s =
           (Inl (Exception (''Too many documents. Maximum is ''
                            @ str_int (int (length (nodes (sched s))) * C))), s)
         \<and> net (snd (distribute_documents e order D (Some C) s)) = net s"
  using assms by (simp add: distribute_over_capacity)

text \<open>Three documents for two nodes of capacity 1.\<close>

theorem capacity_rejected_witness:
  "int (length [''a'', ''b'', ''c'']) > int (length (nodes (sched pool2))) * 1
   \<and> distribute_documents ok_env [] [''a'', ''b'', ''c''] (Some 1) pool2 =
       (Inl (Exception ''Too many documents. Maximum is 2''), pool2)
   \<and> net (snd (distribute_documents ok_env [] [''a'', ''b'', ''c''] (Some 1) pool2)) = []"
proof -
  have h: "int (length [''a'', ''b'', ''c'']) > int (length (nodes (sched pool2))) * 1"
    by (simp add: pool2_def)
  have n: "length (nodes (sched pool2)) = 2" "net pool2 = []" by (simp_all add: pool2_def)
  have str: "str_int 2 = ''2''" by (simp add: str_int_def str_nat.simps digit_char_def)
  from capacity_rejected [OF h, of ok_env "[]"] h n str show ?thesis by simp
qed

text \<open>
  Claim C10. A call without \<^verbatim>\<open>documents_per_node\<close> is the call with 25: it raises the
  capacity exception when \<open>len(D) > 25 * N\<close>, and otherwise gathers the upload tasks in
  which node \<open>i\<close> has the documents \<open>D[25*i : min(25*(i+1), len(D))]\<close>.
\<close>

theorem default_capacity:
  "distribute_documents e order D None s = distribute_documents e order D (Some 25) s
   \<and> (25 * int (length (nodes (sched s))) < int (length D) \<longrightarrow>
        distribute_documents e order D None s =
          (Inl (Exception (''Too many documents. Maximum is ''
                           @ str_int (int (length (nodes (sched s))) * 25))), s))
   \<and> (int (length D) \<le> 25 * int (length (nodes (sched s))) \<longrightarrow>
        distribute_documents e order D None s =
          (case gather order (upload_tasks e (planned_jobs s D 25)) s of
             (Inl err, s') \<Rightarrow> (Inl err, s')
           | (Inr ids, s') \<Rightarrow> (Inr (), s'))
        \<and> (\<forall>i < length (nodes (sched s)).
              shard i (planned_jobs s D 25)
                = py_slice D (25 * int i) (min (25 * (int i + 1)) (int (length D)))))"
proof (intro conjI impI allI)
  show "distribute_documents e order D None s = distribute_documents e order D (Some 25) s"
    by (rule distribute_default)
next
  assume "25 * int (length (nodes (sched s))) < int (length D)"
  hence "int (length (nodes (sched s))) * 25 < int (length D)" by simp
  then show "distribute_documents e order D None s =
          (Inl (Exception (''Too many documents. Maximum is ''
                           @ str_int (int (length (nodes (sched s))) * 25))), s)"
    by (simp only: distribute_default distribute_over_capacity)
next
  assume "int (length D) \<le> 25 * int (length (nodes (sched s)))"
  hence "int (length D) \<le> int (length (nodes (sched s))) * 25" by simp
  then show "distribute_documents e order D None s =
          (case gather order (upload_tasks e (planned_jobs s D 25)) s of
             (Inl err, s') \<Rightarrow> (Inl err, s')
           | (Inr ids, s') \<Rightarrow> (Inr (), s'))"
    by (simp only: distribute_default distribute_within_capacity)
next
  fix i assume "i < length (nodes (sched s))"
  moreover have "25 * (int i + 1) = int i * 25 + 25" by simp
  ultimately show "shard i (planned_jobs s D 25)
                = py_slice D (25 * int i) (min (25 * (int i + 1)) (int (length D)))"
    by (simp add: shard_planned node_docs_def mult.commute)
qed

text \<open>
  One document and an empty pool is over capacity; three documents and two nodes all go
  to the first node.
\<close>

theorem default_capacity_witness:
  "25 * int (length (nodes (sched pool0))) < int (length [''a''])
   \<and> distribute_documents ok_env [] [''a''] None pool0 =
       (Inl (Exception ''Too many documents. Maximum is 0''), pool0)
   \<and> int (length [''a'', ''b'', ''c'']) \<le> 25 * int (length (nodes (sched pool2)))
   \<and> shard 0 (planned_jobs pool2 [''a'', ''b'', ''c''] 25) = [''a'', ''b'', ''c'']
   \<and> shard 1 (planned_jobs pool2 [''a'', ''b'', ''c''] 25) = []"
proof -
  have n0: "length (nodes (sched pool0)) = 0" by (simp add: pool0_def)
  have n2: "length (nodes (sched pool2)) = 2" by (simp add: pool2_def)
  have str: "str_int 0 = ''0''" by (simp add: str_int_def str_nat.simps digit_char_def)
  from default_capacity [of ok_env "[]" "[''a'']" pool0]
  have "25 * int (length (nodes (sched pool0))) < int (length [''a'']) \<longrightarrow>
        distribute_documents ok_env [] [''a''] None pool0 =
          (Inl (Exception (''Too many documents. Maximum is ''
                           @ str_int (int (length (nodes (sched pool0))) * 25))), pool0)"
    by (rule conjunct1 [OF conjunct2])
  with n0 str
  have a: "distribute_documents ok_env [] [''a''] None pool0 =
       (Inl (Exception ''Too many documents. Maximum is 0''), pool0)"
    by simp
  from default_capacity [of ok_env "[]" "[''a'', ''b'', ''c'']" pool2] n2
  have b: "shard 0 (planned_jobs pool2 [''a'', ''b'', ''c''] 25) = [''a'', ''b'', ''c'']"
    and c: "shard 1 (planned_jobs pool2 [''a'', ''b'', ''c''] 25) = []"
    by (simp_all add: py_slice_def)
  from a b c n0 n2 show ?thesis by simp
qed

subsection \<open>Node methods\<close>

lemma ask_question_self:
  "fst (snd (ask_question e q self log)) = self"
  by (simp add: ask_question_def post_def Let_def split: option.splits sum.splits)

lemma upload_document_self:
  "fst (snd (upload_document e p self log)) = self"
  by (simp add: upload_document_def post_def Let_def split: option.splits sum.splits)

lemma ask_question_log:
  "snd (snd (ask_question e q self log)) = log
   \<or> (\<exists>nb. notebook_id self = Some nb \<and> nb \<noteq> [] \<and>
         snd (snd (ask_question e q self log))
           = log @ [\<lparr> req_url = base_url self @ ''/notebooks/'' @ nb @ ''/query'',
                       req_headers = headers self,
                       req_body = JsonBody [(''query'', q)] \<rparr>])"
  by (simp add: ask_question_def post_def Let_def split: option.splits sum.splits)

lemma ask_question_unbound:
  "notebook_id self = None \<or> notebook_id self = Some [] \<Longrightarrow>
   ask_question e q self log = (Inl (Exception ''Notebook not created yet''), self, log)"
  by (auto simp: ask_question_def)

lemma ask_question_bound:
  assumes "notebook_id self = Some nb" and "nb \<noteq> []"
  shows "snd (snd (ask_question e q self log))
           = log @ [\<lparr> req_url = base_url self @ ''/notebooks/'' @ nb @ ''/query'',
                       req_headers = headers self,
                       req_body = JsonBody [(''query'', q)] \<rparr>]"
  using assms
  by (simp add: ask_question_def post_def Let_def split: option.splits sum.splits)

subsection \<open>Method calls through a reference\<close>

lemma set_get_node: "set_node sc r (get_node sc r) = sc"
  by (cases r) simp_all

lemma call_sched:
  assumes "\<And>self log. fst (snd (m self log)) = self"
  shows "sched (snd (call r m s)) = sched s"
proof -
  obtain res self' log' where m: "m (get_node (sched s) r) (net s) = (res, self', log')"
    by (cases "m (get_node (sched s) r) (net s)") auto
  with assms [of "get_node (sched s) r" "net s"] have "self' = get_node (sched s) r" by simp
  with m show ?thesis by (simp add: call_def set_get_node)
qed

lemma call_fst: "fst (call r m s) = fst (m (get_node (sched s) r) (net s))"
  by (simp add: call_def split: prod.splits)

lemma call_net: "net (snd (call r m s)) = snd (snd (m (get_node (sched s) r) (net s)))"
  by (simp add: call_def split: prod.splits)

subsection \<open>gather\<close>

lemma completion_order_distinct: "distinct (completion_order n order)"
  by (auto simp: completion_order_def)

lemma completion_order_set: "set (completion_order n order) = {0..<n}"
  by (auto simp: completion_order_def)

lemma completion_order_perm:
  "distinct order \<Longrightarrow> set order = {0..<n} \<Longrightarrow> completion_order n order = order"
proof -
  assume d: "distinct order" and s: "set order = {0..<n}"
  have "filter (\<lambda>i. i < n) order = order" using s by (auto simp: filter_id_conv)
  moreover have "filter (\<lambda>i. i \<notin> set order) [0..<n] = []" using s by (auto simp: filter_empty_conv)
  ultimately show ?thesis using d by (simp add: completion_order_def)
qed

lemma run_tasks_Cons:
  "run_tasks (j # js) tasks s =
     ((j, fst ((tasks ! j) s)) # fst (run_tasks js tasks (snd ((tasks ! j) s))),
      snd (run_tasks js tasks (snd ((tasks ! j) s))))"
  by (simp add: Let_def split: prod.splits)

lemma run_tasks_indices: "map fst (fst (run_tasks js tasks s)) = js"
  by (induction js arbitrary: s) (simp_all only: run_tasks_Cons run_tasks.simps(1) fst_conv list.map)

lemma run_tasks_invariant:
  assumes "\<And>i t. i \<in> set js \<Longrightarrow> P t \<Longrightarrow> P (snd ((tasks ! i) t))" and "P s"
  shows "P (snd (run_tasks js tasks s))
         \<and> (\<forall>(i, r) \<in> set (fst (run_tasks js tasks s)). \<exists>t. P t \<and> r = fst ((tasks ! i) t))"
  using assms
proof (induction js arbitrary: s)
  case Nil
  then show ?case by simp
next
  case (Cons j js)
  let ?s1 = "snd ((tasks ! j) s)"
  have P1: "P ?s1" using Cons.prems(1) [of j s] Cons.prems(2) by simp
  have IH: "P (snd (run_tasks js tasks ?s1))
         \<and> (\<forall>(i, r) \<in> set (fst (run_tasks js tasks ?s1)). \<exists>t. P t \<and> r = fst ((tasks ! i) t))"
    using Cons.IH [of ?s1] Cons.prems(1) P1 by simp
  show ?case
    unfolding run_tasks_Cons using IH Cons.prems(2) by auto
qed

lemma first_exception_None:
  "first_exception fin = None \<longleftrightarrow> (\<forall>(i, r) \<in> set fin. \<not> isl r)"
  by (induction fin rule: first_exception.induct) auto

lemma first_exception_Some:
  "first_exception fin = Some err \<Longrightarrow> \<exists>i. (i, Inl err) \<in> set fin"
  by (induction fin rule: first_exception.induct) auto

lemma first_exception_only:
  assumes "(k, Inl err) \<in> set fin" and "\<And>i r. (i, r) \<in> set fin \<Longrightarrow> i \<noteq> k \<Longrightarrow> \<not> isl r"
    and "distinct (map fst fin)"
  shows "first_exception fin = Some err"
  using assms
proof (induction fin rule: first_exception.induct)
  case 1
  then show ?case by simp
next
  case (2 i e' fin)
  have "i = k" using "2.prems"(2) [of i "Inl e'"] by auto
  moreover have "(k, Inl e') \<in> set ((i, Inl e') # fin)" using \<open>i = k\<close> by simp
  ultimately have "k \<notin> fst ` set fin" using "2.prems"(3) by simp
  hence "(k, Inl err) \<notin> set fin" by force
  with "2.prems"(1) have "e' = err" by simp
  then show ?case by simp
next
  case (3 i a fin)
  then show ?case by auto
qed

lemma results_of_all:
  assumes "distinct (map fst fin)" and "\<And>i r. (i, r) \<in> set fin \<Longrightarrow> \<not> isl r"
    and "set js \<subseteq> fst ` set fin"
  shows "length (results_of js fin) = length js
         \<and> (\<forall>n < length js. (js ! n, Inr (results_of js fin ! n)) \<in> set fin)"
  using assms(3)
proof (induction js)
  case Nil
  then show ?case by simp
next
  case (Cons j js)
  then obtain r where jr: "(j, r) \<in> set fin" by auto
  from assms(2) [OF jr] obtain a where r: "r = Inr a" by (cases r) auto
  have m: "map_of fin j = Some (Inr a)" using jr r assms(1) by simp
  have IH: "length (results_of js fin) = length js
         \<and> (\<forall>n < length js. (js ! n, Inr (results_of js fin ! n)) \<in> set fin)"
    using Cons by simp
  show ?case
  proof (intro conjI allI impI)
    show "length (results_of (j # js) fin) = length (j # js)" using m IH by simp
  next
    fix n assume "n < length (j # js)"
    then show "((j # js) ! n, Inr (results_of (j # js) fin ! n)) \<in> set fin"
      using m IH jr r by (cases n) auto
  qed
qed


lemma gather_run:
  "gather order tasks s =
     (case first_exception (fst (run_tasks (completion_order (length tasks) order) tasks s)) of
        Some err \<Rightarrow> (Inl err, snd (run_tasks (completion_order (length tasks) order) tasks s))
      | None \<Rightarrow> (Inr (results_of [0..<length tasks]
                        (fst (run_tasks (completion_order (length tasks) order) tasks s))),
                 snd (run_tasks (completion_order (length tasks) order) tasks s)))"
  by (cases "run_tasks (completion_order (length tasks) order) tasks s")
     (simp add: gather_def split: option.split)

lemma gather_invariant:
  assumes "\<And>i t. i < length tasks \<Longrightarrow> P t \<Longrightarrow> P (snd ((tasks ! i) t))" and "P s"
  shows "P (snd (gather order tasks s))"
proof -
  have "P (snd (run_tasks (completion_order (length tasks) order) tasks s))"
    using run_tasks_invariant [of "completion_order (length tasks) order" P tasks s] assms
    by (simp add: completion_order_set)
  then show ?thesis by (simp add: gather_run split: option.splits)
qed

subsection \<open>The query round\<close>

lemma length_query_tasks: "length (query_tasks e q s) = length (nodes (sched s))"
  by (simp add: query_tasks_def)

lemma nth_query_tasks:
  "i < length (nodes (sched s)) \<Longrightarrow> query_tasks e q s ! i = call (Worker i) (ask_question e q)"
  by (simp add: query_tasks_def)

lemma collect_responses_record:
  "collect_responses e order q s =
     (case first_exception (fst (round_record e order q s)) of
        Some err \<Rightarrow> (Inl err, snd (round_record e order q s))
      | None \<Rightarrow> (Inr (results_of [0..<length (nodes (sched s))] (fst (round_record e order q s))),
                 snd (round_record e order q s)))"
  unfolding collect_responses_def gather_run round_record_def length_query_tasks
  by (rule refl)

lemma round_record_indices:
  "map fst (fst (round_record e order q s)) = completion_order (length (nodes (sched s))) order"
  by (simp add: round_record_def run_tasks_indices)

lemma round_inv_refl: "round_inv q s s"
  by (simp add: round_inv_def)

lemma round_inv_step:
  assumes "round_inv q s t"
  shows "round_inv q s (snd (call r (ask_question e q) t))"
proof -
  let ?t' = "snd (call r (ask_question e q) t)"
  have sc: "sched ?t' = sched t" by (rule call_sched) (rule ask_question_self)
  from assms obtain new where new: "net t = net s @ new"
    "\<forall>req \<in> set new. req_body req = JsonBody [(''query'', q)]"
    by (auto simp: round_inv_def)
  have "net ?t' = net t \<or> (\<exists>req. net ?t' = net t @ [req] \<and> req_body req = JsonBody [(''query'', q)])"
    using ask_question_log [of e q "get_node (sched t) r" "net t"]
    by (auto simp: call_net)
  then have "\<exists>new'. net ?t' = net s @ new' \<and> (\<forall>req \<in> set new'. req_body req = JsonBody [(''query'', q)])"
  proof
    assume "net ?t' = net t"
    with new show ?thesis by auto
  next
    assume "\<exists>req. net ?t' = net t @ [req] \<and> req_body req = JsonBody [(''query'', q)]"
    then obtain req where "net ?t' = net t @ [req]" "req_body req = JsonBody [(''query'', q)]"
      by auto
    with new have "net ?t' = net s @ (new @ [req])
        \<and> (\<forall>r \<in> set (new @ [req]). req_body r = JsonBody [(''query'', q)])" by auto
    then show ?thesis by blast
  qed
  with sc assms show ?thesis by (simp add: round_inv_def)
qed

lemma round_record_inv:
  "round_inv q s (snd (round_record e order q s))
   \<and> (\<forall>(i, r) \<in> set (fst (round_record e order q s)).
         \<exists>t. round_inv q s t \<and> r = fst (ask_question e q (nodes (sched s) ! i) (net t)))"
proof -
  let ?js = "completion_order (length (nodes (sched s))) order"
  have step: "\<And>i t. i \<in> set ?js \<Longrightarrow> round_inv q s t
                \<Longrightarrow> round_inv q s (snd ((query_tasks e q s ! i) t))"
    by (simp add: completion_order_set nth_query_tasks round_inv_step)
  have inv: "round_inv q s (snd (round_record e order q s))
     \<and> (\<forall>(i, r) \<in> set (fst (round_record e order q s)).
          \<exists>t. round_inv q s t \<and> r = fst ((query_tasks e q s ! i) t))"
    unfolding round_record_def
    using run_tasks_invariant [of ?js "round_inv q s" "query_tasks e q s" s, OF step round_inv_refl]
    by simp
  have "\<forall>(i, r) \<in> set (fst (round_record e order q s)).
         \<exists>t. round_inv q s t \<and> r = fst (ask_question e q (nodes (sched s) ! i) (net t))"
  proof (clarify)
    fix i r assume ir: "(i, r) \<in> set (fst (round_record e order q s))"
    hence "i \<in> set (map fst (fst (round_record e order q s)))" by force
    hence i: "i < length (nodes (sched s))"
      by (simp add: round_record_indices completion_order_set)
    from inv ir obtain t where t: "round_inv q s t" "r = fst ((query_tasks e q s ! i) t)"
      by auto
    have "sched t = sched s" using t(1) by (simp add: round_inv_def)
    hence "r = fst (ask_question e q (nodes (sched s) ! i) (net t))"
      using t(2) i by (simp add: nth_query_tasks call_fst)
    with t(1) show "\<exists>t. round_inv q s t \<and> r = fst (ask_question e q (nodes (sched s) ! i) (net t))"
      by blast
  qed
  with inv show ?thesis by blast
qed

text \<open>
  Claim C4. When the round succeeds, the collected responses are as many as the pool has
  nodes, and the i-th of them is the answer recorded for task \<open>i\<close>, the call
  \<^verbatim>\<open>ask_question\<close> of the node at pool position \<open>i\<close>, whatever the completion order is.
\<close>

theorem responses_in_node_order:
  assumes "collect_responses e order q s = (Inr rs, s')"
  shows "length rs = length (nodes (sched s))
         \<and> (\<forall>i < length (nodes (sched s)).
               (i, Inr (rs ! i)) \<in> set (fst (round_record e order q s))
               \<and> (\<exists>log. fst (ask_question e q (nodes (sched s) ! i) log) = Inr (rs ! i)))"
proof -
  let ?fin = "fst (round_record e order q s)"
  let ?n = "length (nodes (sched s))"
  from assms have none: "first_exception ?fin = None"
    and rs: "rs = results_of [0..<?n] ?fin"
    by (auto simp: collect_responses_record split: option.splits)
  have d: "distinct (map fst ?fin)"
    by (simp add: round_record_indices completion_order_distinct)
  have ok: "\<And>i r. (i, r) \<in> set ?fin \<Longrightarrow> \<not> isl r"
    using none by (auto simp: first_exception_None)
  have "set (map fst ?fin) = {0..<?n}"
    by (simp add: round_record_indices completion_order_set)
  hence cover: "set [0..<?n] \<subseteq> fst ` set ?fin" by simp
  from results_of_all [OF d ok cover]
  have len: "length rs = ?n"
    and ent: "\<forall>i < ?n. (i, Inr (rs ! i)) \<in> set ?fin"
    by (simp_all add: rs)
  have "\<forall>i < ?n. \<exists>log. fst (ask_question e q (nodes (sched s) ! i) log) = Inr (rs ! i)"
  proof (intro allI impI)
    fix i assume "i < ?n"
    with ent have "(i, Inr (rs ! i)) \<in> set ?fin" by simp
    moreover have "\<forall>(i, r) \<in> set ?fin.
         \<exists>t. round_inv q s t \<and> r = fst (ask_question e q (nodes (sched s) ! i) (net t))"
      using round_record_inv [of q s e order] by (rule conjunct2)
    ultimately obtain t :: state
      where "Inr (rs ! i) = fst (ask_question e q (nodes (sched s) ! i) (net t))"
      by fast
    then show "\<exists>log. fst (ask_question e q (nodes (sched s) ! i) log) = Inr (rs ! i)"
      by metis
  qed
  with len ent show ?thesis by simp
qed


text \<open>The second node completes first; the responses are still in pool order.\<close>

theorem responses_in_node_order_witness:
  "fst (collect_responses echo_env [1, 0] ''q'' pool2)
     = Inr [''re: https://notebooklm.googleapis.com/v1/notebooks/nb1/query'',
            ''re: https://notebooklm.googleapis.com/v1/notebooks/nb2/query'']
   \<and> map fst (fst (round_record echo_env [1, 0] ''q'' pool2)) = [1, 0]
   \<and> (0, Inr ''re: https://notebooklm.googleapis.com/v1/notebooks/nb1/query'')
       \<in> set (fst (round_record echo_env [1, 0] ''q'' pool2))
   \<and> (1, Inr ''re: https://notebooklm.googleapis.com/v1/notebooks/nb2/query'')
       \<in> set (fst (round_record echo_env [1, 0] ''q'' pool2))"
proof -
  have ev: "fst (collect_responses echo_env [1, 0] ''q'' pool2)
     = Inr [''re: https://notebooklm.googleapis.com/v1/notebooks/nb1/query'',
            ''re: https://notebooklm.googleapis.com/v1/notebooks/nb2/query'']"
    by code_simp
  hence h: "collect_responses echo_env [1, 0] ''q'' pool2
     = (Inr [''re: https://notebooklm.googleapis.com/v1/notebooks/nb1/query'',
             ''re: https://notebooklm.googleapis.com/v1/notebooks/nb2/query''],
        snd (collect_responses echo_env [1, 0] ''q'' pool2))"
    by (simp add: prod_eq_iff)
  have n: "length (nodes (sched pool2)) = 2" by (simp add: pool2_def)
  have o: "map fst (fst (round_record echo_env [1, 0] ''q'' pool2)) = [1, 0]"
    by code_simp
  from responses_in_node_order [OF h, THEN conjunct2, rule_format, of 0] n
  have a: "(0, Inr ''re: https://notebooklm.googleapis.com/v1/notebooks/nb1/query'')
       \<in> set (fst (round_record echo_env [1, 0] ''q'' pool2))"
    by simp
  from responses_in_node_order [OF h, THEN conjunct2, rule_format, of 1] n
  have b: "(1, Inr ''re: https://notebooklm.googleapis.com/v1/notebooks/nb2/query'')
       \<in> set (fst (round_record echo_env [1, 0] ''q'' pool2))"
    by simp
  from ev o a b show ?thesis by simp
qed

subsection \<open>A round with a failing node\<close>

lemma summary_request_longer: "length q < length (summary_request q rs)"
  by (simp add: summary_request_def)

lemma summary_request_neq: "summary_request q rs \<noteq> q"
  using summary_request_longer [of q rs] by auto

lemma process_query_record:
  "process_query e order q s =
     (case first_exception (fst (round_record e order q s)) of
        Some err \<Rightarrow> (Inl err, snd (round_record e order q s))
      | None \<Rightarrow>
          call Aggregator
            (ask_question e (summary_request q
               (results_of [0..<length (nodes (sched s))] (fst (round_record e order q s)))))
            (snd (round_record e order q s)))"
  by (simp add: process_query_def collect_responses_record split: option.split)

text \<open>
  Claim C3, as the code has it. When node \<open>k\<close> fails its query and the others succeed,
  \<^verbatim>\<open>process_query\<close> raises what \<^verbatim>\<open>ask_question\<close> of node \<open>k\<close> raised, and stops after the
  round: every request issued during the call carries the question itself, none a
  synthesis prompt. The exception is the one of \<^verbatim>\<open>ask_question\<close> and says nothing about
  which node raised it.
\<close>

theorem failed_round_aborts:
  assumes "k < length (nodes (sched s))"
    and "(k, Inl err) \<in> set (fst (round_record e order q s))"
    and "\<forall>i r. (i, r) \<in> set (fst (round_record e order q s)) \<and> i \<noteq> k \<longrightarrow> \<not> isl r"
  shows "process_query e order q s = (Inl err, snd (round_record e order q s))
         \<and> (\<exists>log. fst (ask_question e q (nodes (sched s) ! k) log) = Inl err)
         \<and> (\<exists>new. net (snd (process_query e order q s)) = net s @ new
                \<and> (\<forall>req \<in> set new. req_body req = JsonBody [(''query'', q)]
                       \<and> (\<forall>rs. req_body req \<noteq> JsonBody [(''query'', summary_request q rs)])))"
proof -
  let ?fin = "fst (round_record e order q s)"
  have d: "distinct (map fst ?fin)"
    by (simp add: round_record_indices completion_order_distinct)
  have fe: "first_exception ?fin = Some err"
    using assms(2) _ d by (rule first_exception_only) (use assms(3) in blast)
  hence pq: "process_query e order q s = (Inl err, snd (round_record e order q s))"
    by (simp add: process_query_record)
  have "\<forall>(i, r) \<in> set ?fin.
         \<exists>t. round_inv q s t \<and> r = fst (ask_question e q (nodes (sched s) ! i) (net t))"
    using round_record_inv [of q s e order] by (rule conjunct2)
  with assms(2) obtain t :: state
    where "Inl err = fst (ask_question e q (nodes (sched s) ! k) (net t))"
    by fast
  hence who: "\<exists>log. fst (ask_question e q (nodes (sched s) ! k) log) = Inl err"
    by metis
  have "round_inv q s (snd (round_record e order q s))"
    using round_record_inv [of q s e order] by (rule conjunct1)
  then obtain new where new: "net (snd (round_record e order q s)) = net s @ new"
    "\<forall>req \<in> set new. req_body req = JsonBody [(''query'', q)]"
    by (auto simp: round_inv_def)
  have "\<forall>req \<in> set new. req_body req = JsonBody [(''query'', q)]
           \<and> (\<forall>rs. req_body req \<noteq> JsonBody [(''query'', summary_request q rs)])"
    using new(2) by (simp add: summary_request_neq [symmetric])
  with new(1) pq have "\<exists>new. net (snd (process_query e order q s)) = net s @ new
                \<and> (\<forall>req \<in> set new. req_body req = JsonBody [(''query'', q)]
                       \<and> (\<forall>rs. req_body req \<noteq> JsonBody [(''query'', summary_request q rs)]))"
    by auto
  with pq who show ?thesis by blast
qed


text \<open>The second node is rejected and completes first, the first node answers.\<close>

theorem failed_round_aborts_witness:
  "(1::nat) < length (nodes (sched pool2))
   \<and> fst (round_record (reject_env ''nb2'') [1, 0] ''q'' pool2)
       = [(1, Inl (Exception ''Failed to query notebook: boom'')), (0, Inr ''X'')]
   \<and> fst (process_query (reject_env ''nb2'') [1, 0] ''q'' pool2)
       = Inl (Exception ''Failed to query notebook: boom'')
   \<and> length (net (snd (process_query (reject_env ''nb2'') [1, 0] ''q'' pool2))) = 2"
proof -
  have n: "(1::nat) < length (nodes (sched pool2))" by (simp add: pool2_def)
  have r: "fst (round_record (reject_env ''nb2'') [1, 0] ''q'' pool2)
       = [(1, Inl (Exception ''Failed to query notebook: boom'')), (0, Inr ''X'')]"
    by code_simp
  have l: "length (net (snd (round_record (reject_env ''nb2'') [1, 0] ''q'' pool2))) = 2"
    by code_simp
  have a: "(1, Inl (Exception ''Failed to query notebook: boom''))
           \<in> set (fst (round_record (reject_env ''nb2'') [1, 0] ''q'' pool2))"
    unfolding r by simp
  have b: "\<forall>i r. (i, r) \<in> set (fst (round_record (reject_env ''nb2'') [1, 0] ''q'' pool2))
             \<and> i \<noteq> 1 \<longrightarrow> \<not> isl r"
    unfolding r by auto
  from failed_round_aborts [OF n a b] l n r show ?thesis by simp
qed

text \<open>
  Claim C3 as stated fails: the exception does not name the failing node. With the first
  node rejected and with the second node rejected, \<^verbatim>\<open>process_query\<close> raises the same
  exception, and its message holds neither a node id (\<open>1\<close>, \<open>2\<close>) nor a pool index
  (\<open>0\<close>, \<open>1\<close>).
\<close>

theorem failed_round_names_no_node:
  "fst (round_record (reject_env ''nb1'') [] ''q'' pool2)
     = [(0, Inl (Exception ''Failed to query notebook: boom'')), (1, Inr ''X'')]
   \<and> fst (round_record (reject_env ''nb2'') [] ''q'' pool2)
     = [(0, Inr ''X''), (1, Inl (Exception ''Failed to query notebook: boom''))]
   \<and> fst (process_query (reject_env ''nb1'') [] ''q'' pool2)
     = Inl (Exception ''Failed to query notebook: boom'')
   \<and> fst (process_query (reject_env ''nb2'') [] ''q'' pool2)
     = Inl (Exception ''Failed to query notebook: boom'')
   \<and> map node_id (nodes (sched pool2)) = [''1'', ''2'']
   \<and> \<not> sublist ''0'' ''Failed to query notebook: boom''
   \<and> \<not> sublist ''1'' ''Failed to query notebook: boom''
   \<and> \<not> sublist ''2'' ''Failed to query notebook: boom''"
  by code_simp

subsection \<open>The scheduler is only read\<close>

lemma distribute_cases:
  "distribute_documents e order D cap s =
     (if int (length (nodes (sched s))) * (case cap of None \<Rightarrow> 25 | Some c \<Rightarrow> c) < int (length D)
      then (Inl (Exception (''Too many documents. Maximum is ''
              @ str_int (int (length (nodes (sched s))) * (case cap of None \<Rightarrow> 25 | Some c \<Rightarrow> c)))), s)
      else (case gather order (upload_tasks e (planned_jobs s D (case cap of None \<Rightarrow> 25 | Some c \<Rightarrow> c))) s of
              (Inl err, s') \<Rightarrow> (Inl err, s')
            | (Inr ids, s') \<Rightarrow> (Inr (), s')))"
  by (simp add: distribute_documents_def planned_jobs_def upload_tasks_def Let_def)

lemma upload_tasks_sched:
  "i < length (upload_tasks e jobs) \<Longrightarrow> sched (snd ((upload_tasks e jobs ! i) t)) = sched t"
  by (cases "jobs ! i") (simp add: upload_tasks_def call_sched upload_document_self)

lemma distribute_sched: "sched (snd (distribute_documents e order D cap s)) = sched s"
proof -
  have "sched (snd (gather order (upload_tasks e jobs) s)) = sched s" for jobs
    by (rule gather_invariant [where P = "\<lambda>t. sched t = sched s"])
       (simp_all add: upload_tasks_sched)
  then show ?thesis
    by (simp add: distribute_cases split: prod.split sum.split) (metis snd_conv)
qed

lemma process_query_sched: "sched (snd (process_query e order q s)) = sched s"
proof -
  have "round_inv q s (snd (round_record e order q s))"
    using round_record_inv [of q s e order] by (rule conjunct1)
  hence r: "sched (snd (round_record e order q s)) = sched s"
    by (simp add: round_inv_def)
  show ?thesis
  proof (cases "first_exception (fst (round_record e order q s))")
    case None
    then show ?thesis
      by (simp add: process_query_record r call_sched ask_question_self)
  next
    case (Some err)
    then show ?thesis by (simp add: process_query_record r)
  qed
qed

text \<open>
  Claim C8. A call of \<^verbatim>\<open>distribute_documents\<close> or \<^verbatim>\<open>process_query\<close> that raises leaves the
  scheduler object as it was: the same pool in the same order, every node with the
  notebook id it had, and the same aggregator node.
\<close>

theorem failure_keeps_scheduler:
  "(isl (fst (distribute_documents e order D cap s)) \<longrightarrow>
      sched (snd (distribute_documents e order D cap s)) = sched s
      \<and> nodes (sched (snd (distribute_documents e order D cap s))) = nodes (sched s)
      \<and> map notebook_id (nodes (sched (snd (distribute_documents e order D cap s))))
          = map notebook_id (nodes (sched s))
      \<and> scheduler_node (sched (snd (distribute_documents e order D cap s)))
          = scheduler_node (sched s))
   \<and> (isl (fst (process_query e order q s)) \<longrightarrow>
      sched (snd (process_query e order q s)) = sched s
      \<and> nodes (sched (snd (process_query e order q s))) = nodes (sched s)
      \<and> map notebook_id (nodes (sched (snd (process_query e order q s))))
          = map notebook_id (nodes (sched s))
      \<and> scheduler_node (sched (snd (process_query e order q s))) = scheduler_node (sched s))"
  by (simp add: distribute_sched process_query_sched)

text \<open>
  Three documents for two nodes of capacity 1, and a round whose first node is rejected:
  both calls raise, and the scheduler is the one of \<open>pool2\<close>.
\<close>

theorem failure_keeps_scheduler_witness:
  "isl (fst (distribute_documents (reject_env ''nb1'') [] [''a'', ''b'', ''c''] (Some 1) pool2))
   \<and> sched (snd (distribute_documents (reject_env ''nb1'') [] [''a'', ''b'', ''c''] (Some 1) pool2))
       = sched pool2
   \<and> isl (fst (process_query (reject_env ''nb1'') [] ''q'' pool2))
   \<and> sched (snd (process_query (reject_env ''nb1'') [] ''q'' pool2)) = sched pool2"
proof -
  have a: "isl (fst (distribute_documents (reject_env ''nb1'') [] [''a'', ''b'', ''c''] (Some 1) pool2))"
    by code_simp
  have b: "isl (fst (process_query (reject_env ''nb1'') [] ''q'' pool2))"
    by code_simp
  from failure_keeps_scheduler [of "reject_env ''nb1''" "[]" "[''a'', ''b'', ''c'']" "Some 1" pool2 "''q''"]
    a b
  show ?thesis by simp
qed

subsection \<open>What process_query requires\<close>

lemma round_record_empty:
  "nodes (sched s) = [] \<Longrightarrow> round_record e order q s = ([], s)"
  by (simp add: round_record_def completion_order_def)

lemma round_record_sched: "sched (snd (round_record e order q s)) = sched s"
  using round_record_inv [of q s e order] by (simp add: round_inv_def)

lemma unbound_node_fails:
  assumes "i < length (nodes (sched s))"
    and "notebook_id (nodes (sched s) ! i) = None \<or> notebook_id (nodes (sched s) ! i) = Some []"
  shows "first_exception (fst (round_record e order q s)) \<noteq> None"
proof
  let ?fin = "fst (round_record e order q s)"
  assume none: "first_exception ?fin = None"
  have "set (map fst ?fin) = {0..<length (nodes (sched s))}"
    by (simp add: round_record_indices completion_order_set)
  with assms(1) have "i \<in> fst ` set ?fin" by simp
  then obtain r where ir: "(i, r) \<in> set ?fin" by force
  have "\<forall>(i, r) \<in> set ?fin.
         \<exists>t. round_inv q s t \<and> r = fst (ask_question e q (nodes (sched s) ! i) (net t))"
    using round_record_inv [of q s e order] by (rule conjunct2)
  with ir obtain t :: state
    where "r = fst (ask_question e q (nodes (sched s) ! i) (net t))"
    by fast
  hence "isl r" using assms(2) by (simp add: ask_question_unbound)
  moreover have "\<not> isl r" using none ir by (auto simp: first_exception_None)
  ultimately show False by simp
qed

text \<open>
  Claim C6, as the code has it. \<^verbatim>\<open>process_query\<close> checks nothing itself; the only check is
  the one \<^verbatim>\<open>ask_question\<close> makes on its own node. So the call raises when the notebook
  of the aggregator or of a pool node is unbound; for the aggregator the exception
  \<open>Notebook not created yet\<close> comes after a round in which every node answered. With an
  empty pool the call is the aggregator's \<^verbatim>\<open>ask_question\<close> on a prompt without node
  blocks, and raises only if that does.
\<close>

theorem process_query_requirements:
  "((notebook_id (scheduler_node (sched s)) = None
       \<or> notebook_id (scheduler_node (sched s)) = Some []) \<longrightarrow>
      isl (fst (process_query e order q s))
      \<and> (first_exception (fst (round_record e order q s)) = None \<longrightarrow>
            process_query e order q s
              = (Inl (Exception ''Notebook not created yet''), snd (round_record e order q s))))
   \<and> ((\<exists>i < length (nodes (sched s)).
          notebook_id (nodes (sched s) ! i) = None
          \<or> notebook_id (nodes (sched s) ! i) = Some []) \<longrightarrow>
      isl (fst (process_query e order q s)))
   \<and> (nodes (sched s) = [] \<longrightarrow>
      process_query e order q s = call Aggregator (ask_question e (summary_request q [])) s)"
proof (intro conjI impI)
  assume agg: "notebook_id (scheduler_node (sched s)) = None
       \<or> notebook_id (scheduler_node (sched s)) = Some []"
  have late: "call Aggregator (ask_question e p) (snd (round_record e order q s))
        = (Inl (Exception ''Notebook not created yet''), snd (round_record e order q s))" for p
    using agg by (simp add: call_def round_record_sched ask_question_unbound)
  show "isl (fst (process_query e order q s))"
    by (cases "first_exception (fst (round_record e order q s))")
       (simp_all add: process_query_record late)
  assume "first_exception (fst (round_record e order q s)) = None"
  then show "process_query e order q s
              = (Inl (Exception ''Notebook not created yet''), snd (round_record e order q s))"
    by (simp add: process_query_record late)
next
  assume "\<exists>i < length (nodes (sched s)).
          notebook_id (nodes (sched s) ! i) = None
          \<or> notebook_id (nodes (sched s) ! i) = Some []"
  then obtain err where "first_exception (fst (round_record e order q s)) = Some err"
    using unbound_node_fails [of _ s e order q] by fastforce
  then show "isl (fst (process_query e order q s))"
    by (simp add: process_query_record)
next
  assume "nodes (sched s) = []"
  then show "process_query e order q s = call Aggregator (ask_question e (summary_request q [])) s"
    by (simp add: process_query_record round_record_empty)
qed

text \<open>
  An unbound aggregator behind two nodes that answer, an unbound pool node, and an empty
  pool with a bound aggregator.
\<close>

theorem process_query_requirements_witness:
  "notebook_id (scheduler_node (sched pool2_unbound)) = None
   \<and> first_exception (fst (round_record ok_env [] ''q'' pool2_unbound)) = None
   \<and> fst (process_query ok_env [] ''q'' pool2_unbound) = Inl (Exception ''Notebook not created yet'')
   \<and> (0 < length (nodes (sched pool1_fresh)) \<and> notebook_id (nodes (sched pool1_fresh) ! 0) = None)
   \<and> isl (fst (process_query ok_env [] ''q'' pool1_fresh))
   \<and> nodes (sched pool0) = []
   \<and> process_query ok_env [] ''q'' pool0
       = call Aggregator (ask_question ok_env (summary_request ''q'' [])) pool0"
proof -
  have a: "notebook_id (scheduler_node (sched pool2_unbound)) = None" by code_simp
  have b: "first_exception (fst (round_record ok_env [] ''q'' pool2_unbound)) = None" by code_simp
  have c: "0 < length (nodes (sched pool1_fresh)) \<and> notebook_id (nodes (sched pool1_fresh) ! 0) = None"
    by code_simp
  have d: "nodes (sched pool0) = []" by (simp add: pool0_def)
  from process_query_requirements [of pool2_unbound ok_env "[]" "''q''"] a b
  have 1: "fst (process_query ok_env [] ''q'' pool2_unbound) = Inl (Exception ''Notebook not created yet'')"
    by simp
  from process_query_requirements [of pool1_fresh ok_env "[]" "''q''"] c
  have 2: "isl (fst (process_query ok_env [] ''q'' pool1_fresh))" by blast
  from process_query_requirements [of pool0 ok_env "[]" "''q''"] d
  have 3: "process_query ok_env [] ''q'' pool0
       = call Aggregator (ask_question ok_env (summary_request ''q'' [])) pool0" by blast
  from a b c d 1 2 3 show ?thesis by blast
qed

text \<open>
  Claim C6 as stated fails. With an empty pool and a bound aggregator the call returns
  the aggregator's answer. With an unbound aggregator behind two nodes the call raises
  only after both per-node queries were issued.
\<close>

theorem process_query_checks_nothing_first:
  "nodes (sched pool0) = []
   \<and> fst (process_query ok_env [] ''q'' pool0) = Inr ''X''
   \<and> notebook_id (scheduler_node (sched pool2_unbound)) = None
   \<and> net pool2_unbound = []
   \<and> fst (process_query ok_env [] ''q'' pool2_unbound) = Inl (Exception ''Notebook not created yet'')
   \<and> map req_url (net (snd (process_query ok_env [] ''q'' pool2_unbound)))
       = [''https://notebooklm.googleapis.com/v1/notebooks/nb1/query'',
          ''https://notebooklm.googleapis.com/v1/notebooks/nb2/query'']"
  by code_simp

subsection \<open>The synthesis prompt\<close>

lemma occurs_then_iff:
  "occurs_then a b t \<longleftrightarrow> (\<exists>ps ms ss. t = ps @ a @ ms @ b @ ss)"
proof (induction t)
  case Nil
  then show ?case by auto
next
  case (Cons x xs)
  have "(\<exists>ps ms ss. x # xs = ps @ a @ ms @ b @ ss)
        \<longleftrightarrow> (\<exists>ms ss. x # xs = a @ ms @ b @ ss) \<or> (\<exists>ps ms ss. xs = ps @ a @ ms @ b @ ss)"
  proof
    assume "\<exists>ps ms ss. x # xs = ps @ a @ ms @ b @ ss"
    then obtain ps ms ss where eq: "x # xs = ps @ a @ ms @ b @ ss" by blast
    show "(\<exists>ms ss. x # xs = a @ ms @ b @ ss) \<or> (\<exists>ps ms ss. xs = ps @ a @ ms @ b @ ss)"
    proof (cases ps)
      case Nil
      with eq show ?thesis by auto
    next
      case (Cons p ps')
      with eq have "xs = ps' @ a @ ms @ b @ ss" by simp
      then show ?thesis by blast
    qed
  next
    assume "(\<exists>ms ss. x # xs = a @ ms @ b @ ss) \<or> (\<exists>ps ms ss. xs = ps @ a @ ms @ b @ ss)"
    then show "\<exists>ps ms ss. x # xs = ps @ a @ ms @ b @ ss"
    proof
      assume "\<exists>ms ss. x # xs = a @ ms @ b @ ss"
      then obtain ms ss where "x # xs = [] @ a @ ms @ b @ ss" by auto
      then show ?thesis by blast
    next
      assume "\<exists>ps ms ss. xs = ps @ a @ ms @ b @ ss"
      then obtain ps ms ss where "x # xs = (x # ps) @ a @ ms @ b @ ss" by auto
      then show ?thesis by blast
    qed
  qed
  moreover have "(\<exists>ms ss. x # xs = a @ ms @ b @ ss)
        \<longleftrightarrow> prefix a (x # xs) \<and> sublist b (drop (length a) (x # xs))"
  proof
    assume "\<exists>ms ss. x # xs = a @ ms @ b @ ss"
    then obtain ms ss where eq: "x # xs = a @ ms @ b @ ss" by blast
    hence "drop (length a) (x # xs) = ms @ b @ ss" by simp
    with eq show "prefix a (x # xs) \<and> sublist b (drop (length a) (x # xs))"
      by (auto simp: sublist_def prefix_def)
  next
    assume "prefix a (x # xs) \<and> sublist b (drop (length a) (x # xs))"
    then obtain rest ms ss where "x # xs = a @ rest" "drop (length a) (x # xs) = ms @ b @ ss"
      by (auto simp: sublist_def prefix_def)
    hence "x # xs = a @ ms @ b @ ss" by simp
    then show "\<exists>ms ss. x # xs = a @ ms @ b @ ss" by blast
  qed
  ultimately show ?case using Cons.IH by simp
qed

lemma node_blocks_labelled: "map node_block (enumerate_from0 rs) = labelled_blocks rs"
  by (rule nth_equalityI) (simp_all add: enumerate_from0_def labelled_blocks_def node_block_def)

lemma summary_request_layout:
  "summary_request q rs =
     prompt_intro @ [CHR 0x22] @ q @ [CHR 0x22] @ prompt_sep
     @ join [CHR 0x0A, CHR 0x0A] (labelled_blocks rs) @ prompt_outro"
  by (simp add: summary_request_def prompt_intro_def prompt_sep_def prompt_outro_def
        node_blocks_labelled)

lemma process_query_sends:
  assumes "collect_responses e order q s = (Inr rs, t)"
    and "notebook_id (scheduler_node (sched s)) = Some nb" and "nb \<noteq> []"
  shows "net (snd (process_query e order q s)) =
           net t @ [\<lparr> req_url = base_url (scheduler_node (sched s)) @ ''/notebooks/'' @ nb @ ''/query'',
                       req_headers = headers (scheduler_node (sched s)),
                       req_body = JsonBody [(''query'', summary_request q rs)] \<rparr>]"
proof -
  have "t = snd (round_record e order q s)"
    using assms(1) by (auto simp: collect_responses_record split: option.splits)
  hence sc: "sched t = sched s" by (simp add: round_record_sched)
  have "process_query e order q s = call Aggregator (ask_question e (summary_request q rs)) t"
    using assms(1) by (simp add: process_query_def)
  then show ?thesis
    using assms(2,3) sc by (simp add: call_net ask_question_bound)
qed


text \<open>
  Claim C5, as the code has it. The prompt sent to the aggregator opens with the question
  in double quotes, then has one block per answer, in the order of the answers, each
  labelled \<open>Node i Response:\<close> with \<open>i\<close> counted from 1 and followed on the next line by
  the answer, the blocks separated by an empty line; the request to synthesize them into
  one answer with agreements and differences closes the prompt. The question comes
  before the blocks, not after them.
\<close>

theorem synthesis_prompt_layout:
  assumes "collect_responses e order q s = (Inr rs, t)"
    and "notebook_id (scheduler_node (sched s)) = Some nb" and "nb \<noteq> []"
  shows "req_body (last (net (snd (process_query e order q s))))
           = JsonBody [(''query'',
               prompt_intro @ [CHR 0x22] @ q @ [CHR 0x22] @ prompt_sep
               @ join [CHR 0x0A, CHR 0x0A] (labelled_blocks rs) @ prompt_outro)]
         \<and> length (labelled_blocks rs) = length rs
         \<and> (\<forall>i < length rs.
               labelled_blocks rs ! i
                 = ''Node '' @ str_int (int i + 1) @ '' Response:'' @ [CHR 0x0A] @ rs ! i)
         \<and> occurs_then ([CHR 0x22] @ q @ [CHR 0x22]) (join [CHR 0x0A, CHR 0x0A] (labelled_blocks rs))
              (summary_request q rs)
         \<and> occurs_then (join [CHR 0x0A, CHR 0x0A] (labelled_blocks rs))
              ''Please synthesize these responses into a comprehensive answer, highlighting agreements and differences.''
              (summary_request q rs)"
proof (intro conjI allI impI)
  show "req_body (last (net (snd (process_query e order q s))))
           = JsonBody [(''query'',
               prompt_intro @ [CHR 0x22] @ q @ [CHR 0x22] @ prompt_sep
               @ join [CHR 0x0A, CHR 0x0A] (labelled_blocks rs) @ prompt_outro)]"
    using process_query_sends [OF assms] by (simp add: summary_request_layout)
next
  show "length (labelled_blocks rs) = length rs" by (simp add: labelled_blocks_def)
next
  fix i assume "i < length rs"
  then show "labelled_blocks rs ! i
                 = ''Node '' @ str_int (int i + 1) @ '' Response:'' @ [CHR 0x0A] @ rs ! i"
    by (simp add: labelled_blocks_def)
next
  have "summary_request q rs = prompt_intro @ ([CHR 0x22] @ q @ [CHR 0x22]) @ prompt_sep
          @ join [CHR 0x0A, CHR 0x0A] (labelled_blocks rs) @ prompt_outro"
    by (simp add: summary_request_layout)
  then show "occurs_then ([CHR 0x22] @ q @ [CHR 0x22]) (join [CHR 0x0A, CHR 0x0A] (labelled_blocks rs))
              (summary_request q rs)"
    unfolding occurs_then_iff by blast
next
  let ?ask = "''Please synthesize these responses into a comprehensive answer, highlighting agreements and differences.''"
  have "prompt_outro = ([CHR 0x0A] @ indent @ [CHR 0x0A] @ indent @ rule40 @ [CHR 0x0A]
          @ indent @ [CHR 0x0A] @ indent) @ ?ask
          @ ([CHR 0x0A] @ indent @ ''Provide a unified response that captures the key insights from all nodes.''
             @ [CHR 0x0A] @ indent)"
    by (simp add: prompt_outro_def)
  then obtain ms ss where "prompt_outro = ms @ ?ask @ ss" by blast
  hence "summary_request q rs = (prompt_intro @ [CHR 0x22] @ q @ [CHR 0x22] @ prompt_sep)
          @ join [CHR 0x0A, CHR 0x0A] (labelled_blocks rs) @ ms @ ?ask @ ss"
    by (simp add: summary_request_layout)
  then show "occurs_then (join [CHR 0x0A, CHR 0x0A] (labelled_blocks rs)) ?ask (summary_request q rs)"
    unfolding occurs_then_iff by blast
qed

text \<open>Two nodes that answer \<open>X\<close> to the question \<open>Q?\<close>.\<close>

theorem synthesis_prompt_layout_witness:
  "fst (collect_responses ok_env [] ''Q?'' pool2) = Inr [''X'', ''X'']
   \<and> notebook_id (scheduler_node (sched pool2)) = Some ''agg''
   \<and> req_body (last (net (snd (process_query ok_env [] ''Q?'' pool2))))
       = JsonBody [(''query'',
           prompt_intro @ [CHR 0x22] @ ''Q?'' @ [CHR 0x22] @ prompt_sep
           @ ''Node 1 Response:'' @ [CHR 0x0A] @ ''X'' @ [CHR 0x0A, CHR 0x0A]
           @ ''Node 2 Response:'' @ [CHR 0x0A] @ ''X'' @ prompt_outro)]"
proof -
  have ev: "fst (collect_responses ok_env [] ''Q?'' pool2) = Inr [''X'', ''X'']" by code_simp
  hence h: "collect_responses ok_env [] ''Q?'' pool2
              = (Inr [''X'', ''X''], snd (collect_responses ok_env [] ''Q?'' pool2))"
    by (simp add: prod_eq_iff)
  have a: "notebook_id (scheduler_node (sched pool2)) = Some ''agg''" by code_simp
  have n: "''agg'' \<noteq> []" by simp
  have b: "join [CHR 0x0A, CHR 0x0A] (labelled_blocks [''X'', ''X''])
           = ''Node 1 Response:'' @ [CHR 0x0A] @ ''X'' @ [CHR 0x0A, CHR 0x0A]
             @ ''Node 2 Response:'' @ [CHR 0x0A] @ ''X''"
    by code_simp
  from synthesis_prompt_layout [OF h a n] b ev a show ?thesis by simp
qed

text \<open>
  Claim C5 as stated fails on the order. Three nodes answer \<open>X\<close> to the question \<open>Q?\<close>:
  the question stands before the first block and nowhere after it.
\<close>

theorem question_precedes_blocks:
  "occurs_then ''Q?'' (''Node 1 Response:'' @ [CHR 0x0A] @ ''X'')
     (summary_request ''Q?'' [''X'', ''X'', ''X''])
   \<and> \<not> occurs_then (''Node 1 Response:'' @ [CHR 0x0A] @ ''X'') ''Q?''
         (summary_request ''Q?'' [''X'', ''X'', ''X''])
   \<and> \<not> occurs_then (''Node 3 Response:'' @ [CHR 0x0A] @ ''X'') ''Q?''
         (summary_request ''Q?'' [''X'', ''X'', ''X''])"
  by code_simp

text \<open>
  Claim C9. The prompt text is a function of the question and of the list of answers and
  of nothing else: two rounds that collected the same answers to the same question send
  the aggregator the same prompt, whatever the service, the completion order and the
  scheduler are in each.
\<close>

theorem prompt_deterministic:
  assumes "collect_responses e1 order1 q s1 = (Inr rs, t1)"
    and "notebook_id (scheduler_node (sched s1)) = Some nb1" and "nb1 \<noteq> []"
    and "collect_responses e2 order2 q s2 = (Inr rs, t2)"
    and "notebook_id (scheduler_node (sched s2)) = Some nb2" and "nb2 \<noteq> []"
  shows "req_body (last (net (snd (process_query e1 order1 q s1))))
           = JsonBody [(''query'', summary_request q rs)]
         \<and> req_body (last (net (snd (process_query e2 order2 q s2))))
           = req_body (last (net (snd (process_query e1 order1 q s1))))"
  using process_query_sends [OF assms(1,2,3)] process_query_sends [OF assms(4,5,6)] by simp

text \<open>
  Two rounds over the two-node pool, under different services and completion orders, the
  second with an aggregator bound to another notebook.
\<close>

theorem prompt_deterministic_witness:
  "fst (collect_responses ok_env [] ''Q?'' pool2) = Inr [''X'', ''X'']
   \<and> fst (collect_responses (reject_env ''none'') [1, 0] ''Q?''
            (pool2\<lparr>sched := (sched pool2)\<lparr>scheduler_node := bound_node ''scheduler'' ''other''\<rparr>\<rparr>))
       = Inr [''X'', ''X'']
   \<and> req_body (last (net (snd (process_query (reject_env ''none'') [1, 0] ''Q?''
            (pool2\<lparr>sched := (sched pool2)\<lparr>scheduler_node := bound_node ''scheduler'' ''other''\<rparr>\<rparr>)))))
       = req_body (last (net (snd (process_query ok_env [] ''Q?'' pool2))))"
proof -
  let ?s2 = "pool2\<lparr>sched := (sched pool2)\<lparr>scheduler_node := bound_node ''scheduler'' ''other''\<rparr>\<rparr>"
  have ev1: "fst (collect_responses ok_env [] ''Q?'' pool2) = Inr [''X'', ''X'']" by code_simp
  hence h1: "collect_responses ok_env [] ''Q?'' pool2
              = (Inr [''X'', ''X''], snd (collect_responses ok_env [] ''Q?'' pool2))"
    by (simp add: prod_eq_iff)
  have ev2: "fst (collect_responses (reject_env ''none'') [1, 0] ''Q?'' ?s2) = Inr [''X'', ''X'']"
    by code_simp
  hence h2: "collect_responses (reject_env ''none'') [1, 0] ''Q?'' ?s2
              = (Inr [''X'', ''X''], snd (collect_responses (reject_env ''none'') [1, 0] ''Q?'' ?s2))"
    by (simp add: prod_eq_iff)
  have a1: "notebook_id (scheduler_node (sched pool2)) = Some ''agg''" by code_simp
  have a2: "notebook_id (scheduler_node (sched ?s2)) = Some ''other''" by code_simp
  have n: "''agg'' \<noteq> []" "''other'' \<noteq> []" by simp_all
  from prompt_deterministic [OF h1 a1 n(1) h2 a2 n(2)] ev1 ev2 show ?thesis by simp
qed

subsection \<open>Who writes the notebook id\<close>

lemma create_notebook_result:
  "(case fst (create_notebook e name self log) of
      Inl err \<Rightarrow> fst (snd (create_notebook e name self log)) = self
    | Inr nid \<Rightarrow> fst (snd (create_notebook e name self log)) = self\<lparr>notebook_id := Some nid\<rparr>)"
  by (simp add: create_notebook_def post_def Let_def split: option.splits sum.splits)

text \<open>
  Claim C7, as the code has it. Only \<^verbatim>\<open>create_notebook\<close> writes the notebook id:
  \<^verbatim>\<open>upload_document\<close> and \<^verbatim>\<open>ask_question\<close> return the node as they got it, called directly
  or through the scheduler, and so does a \<^verbatim>\<open>create_notebook\<close> that raises. A
  \<^verbatim>\<open>create_notebook\<close> that returns binds the id it returns, whether or not the node was
  bound before.
\<close>

theorem notebook_id_written_by_create:
  "fst (snd (upload_document e p self log)) = self
   \<and> fst (snd (ask_question e q self log)) = self
   \<and> sched (snd (call r (upload_document e p) s)) = sched s
   \<and> sched (snd (call r (ask_question e q) s)) = sched s
   \<and> (\<forall>err. fst (create_notebook e name self log) = Inl err \<longrightarrow>
         fst (snd (create_notebook e name self log)) = self)
   \<and> (\<forall>nid. fst (create_notebook e name self log) = Inr nid \<longrightarrow>
         fst (snd (create_notebook e name self log)) = self\<lparr>notebook_id := Some nid\<rparr>)"
proof (intro conjI allI impI)
  show "fst (snd (upload_document e p self log)) = self" by (rule upload_document_self)
  show "fst (snd (ask_question e q self log)) = self" by (rule ask_question_self)
  show "sched (snd (call r (upload_document e p) s)) = sched s"
    by (rule call_sched) (rule upload_document_self)
  show "sched (snd (call r (ask_question e q) s)) = sched s"
    by (rule call_sched) (rule ask_question_self)
next
  fix err assume "fst (create_notebook e name self log) = Inl err"
  then show "fst (snd (create_notebook e name self log)) = self"
    using create_notebook_result [of e name self log] by simp
next
  fix nid assume "fst (create_notebook e name self log) = Inr nid"
  then show "fst (snd (create_notebook e name self log)) = self\<lparr>notebook_id := Some nid\<rparr>"
    using create_notebook_result [of e name self log] by simp
qed

text \<open>
  A creation that the service answers without a name raises and leaves the node unbound;
  a creation on a node bound to \<open>nb1\<close> that the service answers with \<open>notebooks/nb-9\<close>
  binds \<open>nb-9\<close>.
\<close>

theorem notebook_id_written_by_create_witness:
  "fst (create_notebook echo_env ''A'' (new_node ''key'' ''1'') []) = Inl (KeyError ''name'')
   \<and> fst (snd (create_notebook echo_env ''A'' (new_node ''key'' ''1'') [])) = new_node ''key'' ''1''
   \<and> fst (create_notebook ok_env ''A'' (bound_node ''1'' ''nb1'') []) = Inr ''nb-9''
   \<and> notebook_id (fst (snd (create_notebook ok_env ''A'' (bound_node ''1'' ''nb1'') [])))
       = Some ''nb-9''"
proof -
  have a: "fst (create_notebook echo_env ''A'' (new_node ''key'' ''1'') []) = Inl (KeyError ''name'')"
    by code_simp
  have b: "fst (create_notebook ok_env ''A'' (bound_node ''1'' ''nb1'') []) = Inr ''nb-9''"
    by code_simp
  from notebook_id_written_by_create [of echo_env _ "new_node ''key'' ''1''" "[]" _ _ _ "''A''"] a
  have 1: "fst (snd (create_notebook echo_env ''A'' (new_node ''key'' ''1'') [])) = new_node ''key'' ''1''"
    by blast
  from notebook_id_written_by_create [of ok_env _ "bound_node ''1'' ''nb1''" "[]" _ _ _ "''A''"] b
  have "fst (snd (create_notebook ok_env ''A'' (bound_node ''1'' ''nb1'') []))
          = (bound_node ''1'' ''nb1'')\<lparr>notebook_id := Some ''nb-9''\<rparr>"
    by blast
  hence 2: "notebook_id (fst (snd (create_notebook ok_env ''A'' (bound_node ''1'' ''nb1'') [])))
       = Some ''nb-9''"
    by simp
  from a b 1 2 show ?thesis by blast
qed

text \<open>
  Claim C7 as stated fails: \<^verbatim>\<open>create_notebook\<close> succeeds a second time on the same node and
  rebinds it, here from \<open>nb0\<close> to \<open>nb1\<close>.
\<close>

theorem create_notebook_rebinds:
  "fst first_create = Inr ''nb0''
   \<and> notebook_id (fst (snd first_create)) = Some ''nb0''
   \<and> fst second_create = Inr ''nb1''
   \<and> notebook_id (fst (snd second_create)) = Some ''nb1''"
  by code_simp

end
